theory Spec2Isabelle
  imports Main "HOL-Library.AList"
begin

section \<open>Collection index generation (col\_to\_index.py)\<close>

text \<open>
  A shallow embedding of \<^verbatim>\<open>CollectionToIndex.generate_index\<close> and
  \<^verbatim>\<open>CollectionToIndex.extract_collection\<close>.

  What the Python leaves to its libraries is a parameter of the model:
  \<^item> \<^verbatim>\<open>dateutil.parser.isoparse\<close> is a function \<open>isoparse\<close> from strings to
    datetimes, \<open>None\<close> where the library raises \<^verbatim>\<open>ValueError\<close>;
  \<^item> the order in which \<^verbatim>\<open>list.sort\<close> leaves a list when a comparison raises is a
    function \<open>residue\<close> (the language says only that the list is left partially
    modified);
  \<^item> the file system is a record of two functions, the listing of a directory and the
    bundle that \<^verbatim>\<open>json.load\<close> reads from a path;
  \<^item> the string of \<^verbatim>\<open>uuid.uuid4()\<close> is an argument \<open>uuid\<close>.
  Every exception is a value of type \<open>error\<close>; what is printed and what is read from
  the file system is recorded, in order, as a list of events. The objects that the caller
  passes and the code changes in place, the dict \<^verbatim>\<open>collections\<close> of
  \<^verbatim>\<open>extract_collection\<close> and the bundles of \<^verbatim>\<open>generate_index\<close>, are returned as
  they are when the call ends, whether it returns or raises.
\<close>

subsection \<open>Errors and events\<close>

datatype error =
    KeyError string
  | IndexError
  | AttributeError string
  | ValueError string
  | TypeError
  | OSError string

datatype event =
    Printed string
  | ListDir string
  | OpenFile string

subsection \<open>Data\<close>

text \<open>
  The input document is \<^verbatim>\<open>{"objects": [{"type": ..., ...}, ...]}\<close>. Every object carries
  its type; the other fields are looked up by key and may be missing. A bundle is a
  dict: line 39 reads it by key and line 40 assigns to it by key. \<open>bundle_id\<close> is the
  value under its key \<^verbatim>\<open>"id"\<close>, when it has one.
\<close>

record stix_object =
  obj_type :: string
  obj_fields :: "(string \<times> string) list"

text \<open>
  What a bundle holds under \<^verbatim>\<open>"objects"\<close>: a list, or, once line 40 has assigned to
  it, a \<^verbatim>\<open>filter\<close> object that keeps the collection objects. A filter is read once:
  \<open>FilterIter xs\<close> is a filter whose underlying iterator has the objects \<open>xs\<close> left. A
  filter over a filter with the same test keeps the same objects, so one constructor
  stands for both.
\<close>

datatype objects_value =
    ObjList "stix_object list"
  | FilterIter "stix_object list"

record stix_bundle =
  bundle_id :: "string option"
  bundle_objects :: objects_value

text \<open>
  A datetime is offset-naive or offset-aware, and stands for a point in time of a
  linearly ordered type. \<^verbatim>\<open><\<close> and \<^verbatim>\<open>>\<close> between a naive and an aware datetime
  raise \<^verbatim>\<open>TypeError\<close>.
\<close>

datatype 't datetime = Naive 't | Aware 't

fun instant :: "'t datetime \<Rightarrow> 't" where
  "instant (Naive a) = a"
| "instant (Aware a) = a"

fun is_aware :: "'t datetime \<Rightarrow> bool" where
  "is_aware (Naive a) = False"
| "is_aware (Aware a) = True"

fun dt_less :: "'t::linorder datetime \<Rightarrow> 't datetime \<Rightarrow> error + bool" where
  "dt_less (Naive a) (Naive b) = Inr (a < b)"
| "dt_less (Aware a) (Aware b) = Inr (a < b)"
| "dt_less (Naive a) (Aware b) = Inl TypeError"
| "dt_less (Aware a) (Naive b) = Inl TypeError"

text \<open>The dict appended at lines 109-115, and the dict created at lines 101-105.\<close>

record version_entry =
  v_version :: string
  v_url :: string
  v_modified :: string
  v_name :: string
  v_description :: string

record collection_entry =
  c_id :: string
  c_created :: string
  c_versions :: "version_entry list"

text \<open>
  \<^verbatim>\<open>collections\<close> is a dict from STIX id to collection. A Python dict keeps its keys
  in the order of their first insertion, and \<^verbatim>\<open>collections.values()\<close> follows
  that order, so the table is an association list; \<open>AList.update\<close> replaces the value
  of a key in place and appends a key that is new.
\<close>

type_synonym table = "(string \<times> collection_entry) list"

text \<open>The returned index: versions without name and description (lines 76-77).\<close>

record index_version =
  iv_version :: string
  iv_url :: string
  iv_modified :: string

record index_collection =
  ic_id :: string
  ic_created :: string
  ic_versions :: "index_version list"
  ic_name :: string
  ic_description :: string

text \<open>
  \<open>idx_created\<close> and \<open>idx_modified\<close> are the datetimes \<^verbatim>\<open>index_created\<close> and
  \<^verbatim>\<open>index_modified\<close>; their rendering by \<^verbatim>\<open>isoformat()\<close> is left to the library.
\<close>

record 't index =
  idx_id :: string
  idx_name :: string
  idx_description :: string
  idx_created :: "'t datetime"
  idx_modified :: "'t datetime"
  idx_collections :: "index_collection list"

record filesystem =
  fs_listdir :: "string \<Rightarrow> string list option"
  fs_load :: "string \<Rightarrow> stix_bundle option"

subsection \<open>The file name pattern\<close>

text \<open>
  \<^verbatim>\<open>re.compile("(\w+-)+(\d\.?)+.json")\<close>. The pattern uses character classes,
  literals, the wildcard, sequence, \<^verbatim>\<open>+\<close> and \<^verbatim>\<open>?\<close>; for such a pattern
  \<^verbatim>\<open>match\<close> finds a match exactly when some prefix of the string belongs to the
  language of the pattern. Membership is decided by derivatives. File names are ASCII
  strings here: \<^verbatim>\<open>\w\<close> is a letter, a digit or the underscore, \<^verbatim>\<open>\d\<close> a digit.
\<close>

datatype char_class = Word | Digit | Lit char | AnyChar

fun in_class :: "char_class \<Rightarrow> char \<Rightarrow> bool" where
  "in_class Digit c = (48 \<le> (of_char c :: nat) \<and> (of_char c :: nat) \<le> 57)"
| "in_class Word c =
     ((48 \<le> (of_char c :: nat) \<and> (of_char c :: nat) \<le> 57)
      \<or> (65 \<le> (of_char c :: nat) \<and> (of_char c :: nat) \<le> 90)
      \<or> (97 \<le> (of_char c :: nat) \<and> (of_char c :: nat) \<le> 122)
      \<or> c = CHR ''_'')"
| "in_class (Lit d) c = (c = d)"
| "in_class AnyChar c = (c \<noteq> CHR 0x0A)"

datatype regex =
    Zero
  | One
  | Atom char_class
  | Alt regex regex
  | Times regex regex
  | Star regex

definition Plus :: "regex \<Rightarrow> regex" where
  "Plus r = Times r (Star r)"

definition Opt :: "regex \<Rightarrow> regex" where
  "Opt r = Alt r One"

fun nullable :: "regex \<Rightarrow> bool" where
  "nullable Zero = False"
| "nullable One = True"
| "nullable (Atom a) = False"
| "nullable (Alt r s) = (nullable r \<or> nullable s)"
| "nullable (Times r s) = (nullable r \<and> nullable s)"
| "nullable (Star r) = True"

fun deriv :: "char \<Rightarrow> regex \<Rightarrow> regex" where
  "deriv c Zero = Zero"
| "deriv c One = Zero"
| "deriv c (Atom a) = (if in_class a c then One else Zero)"
| "deriv c (Alt r s) = Alt (deriv c r) (deriv c s)"
| "deriv c (Times r s) =
     (if nullable r then Alt (Times (deriv c r) s) (deriv c s) else Times (deriv c r) s)"
| "deriv c (Star r) = Times (deriv c r) (Star r)"

text \<open>\<^verbatim>\<open>pattern.match(s)\<close> as a truth value: some prefix of \<open>s\<close> matches.\<close>

fun re_match :: "regex \<Rightarrow> string \<Rightarrow> bool" where
  "re_match r [] = nullable r"
| "re_match r (c # cs) = (nullable r \<or> re_match (deriv c r) cs)"

definition version_regex :: regex where
  "version_regex =
     Times (Plus (Times (Plus (Atom Word)) (Atom (Lit CHR ''-''))))
       (Times (Plus (Times (Atom Digit) (Opt (Atom (Lit CHR ''.'')))))
         (Times (Atom AnyChar)
           (Times (Atom (Lit CHR ''j''))
             (Times (Atom (Lit CHR ''s''))
               (Times (Atom (Lit CHR ''o'')) (Atom (Lit CHR ''n'')))))))"

text \<open>\<^verbatim>\<open>os.path.join\<close> of two components, on POSIX.\<close>

definition path_join :: "string \<Rightarrow> string \<Rightarrow> string" where
  "path_join a b =
     (if b \<noteq> [] \<and> hd b = CHR ''/'' then b
      else if a = [] \<or> last a = CHR ''/'' then a @ b
      else a @ ''/'' @ b)"

subsection \<open>extract\_collection (lines 88-117)\<close>

definition collection_type :: string where
  "collection_type = ''x-mitre-collection''"

text \<open>\<^verbatim>\<open>d[k]\<close> on a dict.\<close>

definition getitem :: "(string \<times> string) list \<Rightarrow> string \<Rightarrow> error + string" where
  "getitem d k = (case map_of d k of None \<Rightarrow> Inl (KeyError k) | Some v \<Rightarrow> Inr v)"

text \<open>
  The keys of a sort can be compared with one another when they are all naive or all
  aware. A sort whose keys are not all of one kind compares a naive key with an aware
  one at some point, whatever its strategy, and raises.
\<close>

definition comparable :: "'t datetime list \<Rightarrow> bool" where
  "comparable ks = (list_all is_aware ks \<or> list_all (\<lambda>k. \<not> is_aware k) ks)"

text \<open>
  Line 117: \<^verbatim>\<open>versions.sort(key=lambda version: isoparse(version["modified"]), reverse=True)\<close>.
  The result is the list as the call leaves it, and the exception if it raises. The
  keys are computed first, in list order, and the first \<^verbatim>\<open>ValueError\<close> leaves the
  call with the list untouched. \<^verbatim>\<open>list.sort\<close> is stable, and with
  \<^verbatim>\<open>reverse=True\<close> it reverses the list, sorts it ascending and reverses the result,
  so that equal keys keep their order. When a comparison raises \<^verbatim>\<open>TypeError\<close> the
  list is left in the order \<open>residue\<close> gives.
\<close>

definition sort_versions ::
  "(string \<Rightarrow> 't::linorder datetime option) \<Rightarrow> (version_entry list \<Rightarrow> version_entry list)
     \<Rightarrow> version_entry list \<Rightarrow> version_entry list \<times> error option" where
  "sort_versions isoparse residue vs =
     (case find (\<lambda>v. isoparse (v_modified v) = None) vs of
        Some v \<Rightarrow> (vs, Some (ValueError (v_modified v)))
      | None \<Rightarrow>
          if comparable (map (\<lambda>v. the (isoparse (v_modified v))) vs)
          then (rev (sort_key (\<lambda>v. instant (the (isoparse (v_modified v)))) (rev vs)), None)
          else (residue vs, Some TypeError))"

text \<open>Lines 109-115: the dict literal reads its values in the order written.\<close>

definition new_version :: "stix_object \<Rightarrow> string \<Rightarrow> error + version_entry" where
  "new_version collection_version url =
     (case getitem (obj_fields collection_version) ''x_mitre_version'' of
        Inl e \<Rightarrow> Inl e
      | Inr ver \<Rightarrow>
     (case getitem (obj_fields collection_version) ''modified'' of
        Inl e \<Rightarrow> Inl e
      | Inr modified \<Rightarrow>
     (case getitem (obj_fields collection_version) ''name'' of
        Inl e \<Rightarrow> Inl e
      | Inr nm \<Rightarrow>
     (case getitem (obj_fields collection_version) ''description'' of
        Inl e \<Rightarrow> Inl e
      | Inr descr \<Rightarrow>
          Inr \<lparr>v_version = ver, v_url = url, v_modified = modified,
               v_name = nm, v_description = descr\<rparr>))))"

text \<open>
  Lines 99-105: create the collection when its id is not yet a key. A \<^verbatim>\<open>KeyError\<close>
  here comes before any change of the dict.
\<close>

definition ensure_collection :: "stix_object \<Rightarrow> table \<Rightarrow> error + (string \<times> table)" where
  "ensure_collection collection_version collections =
     (case getitem (obj_fields collection_version) ''id'' of
        Inl e \<Rightarrow> Inl e
      | Inr cid \<Rightarrow>
          if map_of collections cid = None then
            (case getitem (obj_fields collection_version) ''created'' of
               Inl e \<Rightarrow> Inl e
             | Inr cr \<Rightarrow>
                 Inr (cid, AList.update cid
                        \<lparr>c_id = cid, c_created = cr, c_versions = []\<rparr> collections))
          else Inr (cid, collections))"

text \<open>
  Lines 98-117: the body of the loop, for one collection object. The result is the dict
  as the body leaves it, and the exception if it raises: a \<^verbatim>\<open>KeyError\<close> of lines
  110-114 comes after the collection has been created at lines 101-105, and the sort of
  line 117 comes after the append.
\<close>

definition add_version ::
  "(string \<Rightarrow> 't::linorder datetime option) \<Rightarrow> (version_entry list \<Rightarrow> version_entry list)
     \<Rightarrow> stix_object \<Rightarrow> table \<Rightarrow> string \<Rightarrow> table \<times> error option" where
  "add_version isoparse residue collection_version collections url =
     (case ensure_collection collection_version collections of
        Inl e \<Rightarrow> (collections, Some e)
      | Inr (cid, collections1) \<Rightarrow>
     (case map_of collections1 cid of
        None \<Rightarrow> (collections1, Some (KeyError cid))
      | Some collection \<Rightarrow>
     (case new_version collection_version url of
        Inl e \<Rightarrow> (collections1, Some e)
      | Inr v \<Rightarrow>
     (case sort_versions isoparse residue (c_versions collection @ [v]) of
        (vs, e) \<Rightarrow>
          (AList.update cid (collection\<lparr>c_versions := vs\<rparr>) collections1, e)))))"

text \<open>
  Line 97: the loop over the objects that are collections. The result is the dict as the
  loop leaves it, the objects that it has not read, and the exception if it raises.
\<close>

fun extract_objects ::
  "(string \<Rightarrow> 't::linorder datetime option) \<Rightarrow> (version_entry list \<Rightarrow> version_entry list)
     \<Rightarrow> stix_object list \<Rightarrow> table \<Rightarrow> string
     \<Rightarrow> table \<times> stix_object list \<times> error option" where
  "extract_objects isoparse residue [] collections url = (collections, [], None)"
| "extract_objects isoparse residue (x # xs) collections url =
     (if obj_type x = collection_type then
        (case add_version isoparse residue x collections url of
           (collections', Some e) \<Rightarrow> (collections', xs, Some e)
         | (collections', None) \<Rightarrow> extract_objects isoparse residue xs collections' url)
      else extract_objects isoparse residue xs collections url)"

text \<open>
  The objects that an iteration over \<^verbatim>\<open>bundle["objects"]\<close> reads, and what the bundle
  holds once the iteration has stopped with \<open>rest\<close> unread: a list is not changed by
  reading it, a filter is used up as far as it was read.
\<close>

fun pending :: "objects_value \<Rightarrow> stix_object list" where
  "pending (ObjList xs) = xs"
| "pending (FilterIter xs) = xs"

fun after_reading :: "objects_value \<Rightarrow> stix_object list \<Rightarrow> objects_value" where
  "after_reading (ObjList xs) rest = ObjList xs"
| "after_reading (FilterIter xs) rest = FilterIter rest"

text \<open>
  \<^verbatim>\<open>extract_collection(bundle, collections, url)\<close>: the dict and the bundle as the call
  leaves them, and the exception if it raises.
\<close>

definition extract_collection ::
  "(string \<Rightarrow> 't::linorder datetime option) \<Rightarrow> (version_entry list \<Rightarrow> version_entry list)
     \<Rightarrow> stix_bundle \<Rightarrow> table \<Rightarrow> string \<Rightarrow> table \<times> stix_bundle \<times> error option" where
  "extract_collection isoparse residue bundle collections url =
     (case extract_objects isoparse residue (pending (bundle_objects bundle)) collections url of
        (collections', rest, e) \<Rightarrow>
          (collections',
           bundle\<lparr>bundle_objects := after_reading (bundle_objects bundle) rest\<rparr>, e))"

subsection \<open>generate\_index (lines 12-86)\<close>

definition usage_warning :: string where
  "usage_warning =
     ''cannot use both files and folder at the same time, please use only one argument at a time''"

text \<open>Lines 31-34: \<^verbatim>\<open>files\<close> starts empty and grows by the matching names of each folder.\<close>

fun scan_folders ::
  "filesystem \<Rightarrow> string list \<Rightarrow> string list \<Rightarrow> event list \<times> (error + string list)" where
  "scan_folders fs [] files = ([], Inr files)"
| "scan_folders fs (folder # rest) files =
     (case fs_listdir fs folder of
        None \<Rightarrow> ([ListDir folder], Inl (OSError folder))
      | Some names \<Rightarrow>
          (case scan_folders fs rest
                  (files @ map (path_join folder) (filter (re_match version_regex) names)) of
             (tr, r) \<Rightarrow> (ListDir folder # tr, r)))"

text \<open>
  Line 39: \<^verbatim>\<open>any(x["type"] == 'x-mitre-collection' for x in bundle["objects"])\<close>, with
  what the bundle holds afterwards. On a filter, \<^verbatim>\<open>any\<close> reads up to the first
  collection object and stops there; when there is none it reads the filter to its end.
\<close>

fun any_collection :: "objects_value \<Rightarrow> bool \<times> objects_value" where
  "any_collection (ObjList xs) = (list_ex (\<lambda>x. obj_type x = collection_type) xs, ObjList xs)"
| "any_collection (FilterIter xs) =
     (case dropWhile (\<lambda>x. obj_type x \<noteq> collection_type) xs of
        [] \<Rightarrow> (False, FilterIter [])
      | y # ys \<Rightarrow> (True, FilterIter ys))"

text \<open>
  Lines 36-44, on the caller's list of bundles, which are taken to be distinct objects.
  The result is the list as the loop leaves it, and the exception if it raises.

  Line 40 assigns to the caller's bundle a \<^verbatim>\<open>filter\<close> object over what the bundle held.
  \<^verbatim>\<open>cleaned_bundles\<close> holds the same bundle objects; when the loop ends without
  raising, every bundle of the list has been appended to it, because a bundle without a
  collection object reaches line 44: the message reads the attribute \<^verbatim>\<open>id\<close> of the
  bundle, a dict has no attributes of that kind, so building the message raises
  \<^verbatim>\<open>AttributeError\<close> and nothing is printed.
\<close>

fun clean_bundles :: "stix_bundle list \<Rightarrow> stix_bundle list \<times> error option" where
  "clean_bundles [] = ([], None)"
| "clean_bundles (potentially_valid_bundle # rest) =
     (case any_collection (bundle_objects potentially_valid_bundle) of
        (True, objs) \<Rightarrow>
          (case clean_bundles rest of
             (rest', e) \<Rightarrow>
               (potentially_valid_bundle\<lparr>bundle_objects := FilterIter (pending objs)\<rparr> # rest', e))
      | (False, objs) \<Rightarrow>
          (potentially_valid_bundle\<lparr>bundle_objects := objs\<rparr> # rest,
           Some (AttributeError ''id'')))"

text \<open>Lines 54-55.\<close>

definition collection_url :: "string \<Rightarrow> string \<Rightarrow> string" where
  "collection_url root_url collection_bundle_file =
     (if root_url \<noteq> [] \<and> last root_url = CHR ''/'' then root_url @ collection_bundle_file
      else root_url @ ''/'' @ collection_bundle_file)"

text \<open>
  Lines 50-56. The bundle read from a file and the dict \<^verbatim>\<open>collections\<close> are objects
  of the call itself, so nothing of them is left when the call raises.
\<close>

fun extract_files ::
  "(string \<Rightarrow> 't::linorder datetime option) \<Rightarrow> (version_entry list \<Rightarrow> version_entry list)
     \<Rightarrow> filesystem \<Rightarrow> string \<Rightarrow> string list \<Rightarrow> table \<Rightarrow> event list \<times> (error + table)" where
  "extract_files isoparse residue fs root_url [] collections = ([], Inr collections)"
| "extract_files isoparse residue fs root_url (f # rest) collections =
     (case fs_load fs f of
        None \<Rightarrow> ([OpenFile f], Inl (OSError f))
      | Some bundle \<Rightarrow>
          (case extract_collection isoparse residue bundle collections
                  (collection_url root_url f) of
             (collections', bundle', Some e) \<Rightarrow> ([OpenFile f], Inl e)
           | (collections', bundle', None) \<Rightarrow>
               (case extract_files isoparse residue fs root_url rest collections' of
                  (tr, r) \<Rightarrow> (OpenFile f # tr, r))))"

text \<open>Lines 58-61, with the caller's bundles as the loop leaves them.\<close>

fun extract_bundles ::
  "(string \<Rightarrow> 't::linorder datetime option) \<Rightarrow> (version_entry list \<Rightarrow> version_entry list)
     \<Rightarrow> stix_bundle list \<Rightarrow> table \<Rightarrow> stix_bundle list \<times> (error + table)" where
  "extract_bundles isoparse residue [] collections = ([], Inr collections)"
| "extract_bundles isoparse residue (input_bundle # rest) collections =
     (case extract_collection isoparse residue input_bundle collections ''Imported'' of
        (collections', input_bundle', Some e) \<Rightarrow> (input_bundle' # rest, Inl e)
      | (collections', input_bundle', None) \<Rightarrow>
          (case extract_bundles isoparse residue rest collections' of
             (rest', r) \<Rightarrow> (input_bundle' # rest', r)))"

text \<open>
  Lines 26-61: everything before the assembly. \<^verbatim>\<open>None\<close> and the empty list are both
  false in every test the code makes of \<^verbatim>\<open>files\<close>, \<^verbatim>\<open>folders\<close> and \<^verbatim>\<open>bundles\<close>, so
  the three arguments are lists. The result is the events, the caller's bundles as they
  are left, and the table or the exception.
\<close>

definition build_table ::
  "(string \<Rightarrow> 't::linorder datetime option) \<Rightarrow> (version_entry list \<Rightarrow> version_entry list)
     \<Rightarrow> filesystem \<Rightarrow> string \<Rightarrow> string list \<Rightarrow> string list \<Rightarrow> stix_bundle list
     \<Rightarrow> event list \<times> stix_bundle list \<times> (error + table)" where
  "build_table isoparse residue fs root_url files folders bundles =
     (let tr0 = (if files \<noteq> [] \<and> folders \<noteq> [] then [Printed usage_warning] else [])
      in case (if folders \<noteq> [] then scan_folders fs folders [] else ([], Inr files)) of
           (tr1, Inl e) \<Rightarrow> (tr0 @ tr1, bundles, Inl e)
         | (tr1, Inr files') \<Rightarrow>
        (case clean_bundles bundles of
           (bundles1, Some e) \<Rightarrow> (tr0 @ tr1, bundles1, Inl e)
         | (cleaned_bundles, None) \<Rightarrow>
        (case extract_files isoparse residue fs root_url files' [] of
           (tr2, Inl e) \<Rightarrow> (tr0 @ tr1 @ tr2, cleaned_bundles, Inl e)
         | (tr2, Inr collections) \<Rightarrow>
        (case extract_bundles isoparse residue cleaned_bundles collections of
           (bundles2, r) \<Rightarrow> (tr0 @ tr1 @ tr2, bundles2, r)))))"

text \<open>Lines 76-77: the version without its name and description.\<close>

definition strip_version :: "version_entry \<Rightarrow> index_version" where
  "strip_version version =
     \<lparr>iv_version = v_version version, iv_url = v_url version,
      iv_modified = v_modified version\<rparr>"

text \<open>
  Lines 68-69 and 73-74: the running minimum and the running maximum. The first datetime
  is taken as it is; each later one is compared with the running value.
\<close>

fun earlier_of :: "'t::linorder datetime option \<Rightarrow> 't datetime \<Rightarrow> error + 't datetime" where
  "earlier_of None t = Inr t"
| "earlier_of (Some index_created) t =
     (case dt_less index_created t of
        Inl e \<Rightarrow> Inl e
      | Inr b \<Rightarrow> Inr (if b then index_created else t))"

fun later_of :: "'t::linorder datetime option \<Rightarrow> 't datetime \<Rightarrow> error + 't datetime" where
  "later_of None t = Inr t"
| "later_of (Some index_modified) t =
     (case dt_less t index_modified of
        Inl e \<Rightarrow> Inl e
      | Inr b \<Rightarrow> Inr (if b then index_modified else t))"

text \<open>Lines 71-77: the running maximum of \<^verbatim>\<open>modified\<close>, and the two deletions.\<close>

fun strip_versions ::
  "(string \<Rightarrow> 't::linorder datetime option) \<Rightarrow> version_entry list \<Rightarrow> 't datetime option
     \<Rightarrow> error + (index_version list \<times> 't datetime option)" where
  "strip_versions isoparse [] index_modified = Inr ([], index_modified)"
| "strip_versions isoparse (v # vs) index_modified =
     (case isoparse (v_modified v) of
        None \<Rightarrow> Inl (ValueError (v_modified v))
      | Some t \<Rightarrow>
     (case later_of index_modified t of
        Inl e \<Rightarrow> Inl e
      | Inr m \<Rightarrow>
     (case strip_versions isoparse vs (Some m) of
        Inl e \<Rightarrow> Inl e
      | Inr (out, index_modified') \<Rightarrow> Inr (strip_version v # out, index_modified'))))"

text \<open>
  Lines 63-77: the loop over \<^verbatim>\<open>collections.values()\<close>. \<^verbatim>\<open>versions[-1]\<close> raises
  \<^verbatim>\<open>IndexError\<close> on an empty list.
\<close>

fun finish_collections ::
  "(string \<Rightarrow> 't::linorder datetime option) \<Rightarrow> table \<Rightarrow> 't datetime option
     \<Rightarrow> 't datetime option
     \<Rightarrow> error + (index_collection list \<times> 't datetime option \<times> 't datetime option)" where
  "finish_collections isoparse [] index_created index_modified =
     Inr ([], index_created, index_modified)"
| "finish_collections isoparse ((k, collection) # rest) index_created index_modified =
     (if c_versions collection = [] then Inl IndexError
      else
        (case isoparse (c_created collection) of
           None \<Rightarrow> Inl (ValueError (c_created collection))
         | Some t \<Rightarrow>
        (case earlier_of index_created t of
           Inl e \<Rightarrow> Inl e
         | Inr c \<Rightarrow>
        (case strip_versions isoparse (c_versions collection) index_modified of
           Inl e \<Rightarrow> Inl e
         | Inr (vs, index_modified') \<Rightarrow>
        (case finish_collections isoparse rest (Some c) index_modified' of
           Inl e \<Rightarrow> Inl e
         | Inr (out, index_created', index_modified'') \<Rightarrow>
             Inr (\<lparr>ic_id = c_id collection, ic_created = c_created collection,
                   ic_versions = vs,
                   ic_name = v_name (last (c_versions collection)),
                   ic_description = v_description (last (c_versions collection))\<rparr> # out,
                  index_created', index_modified''))))))"

text \<open>
  Lines 46-47 and 63-86. \<^verbatim>\<open>index_created\<close> and \<^verbatim>\<open>index_modified\<close> start as
  \<^verbatim>\<open>None\<close>; line 83 calls \<^verbatim>\<open>isoformat\<close> on the first and line 84 on the second.
\<close>

definition assemble ::
  "(string \<Rightarrow> 't::linorder datetime option) \<Rightarrow> string \<Rightarrow> string \<Rightarrow> string \<Rightarrow> table
     \<Rightarrow> error + 't index" where
  "assemble isoparse uuid name description collections =
     (case finish_collections isoparse collections None None of
        Inl e \<Rightarrow> Inl e
      | Inr (out, index_created, index_modified) \<Rightarrow>
          (case index_created of
             None \<Rightarrow> Inl (AttributeError ''isoformat'')
           | Some created \<Rightarrow>
               (case index_modified of
                  None \<Rightarrow> Inl (AttributeError ''isoformat'')
                | Some modified \<Rightarrow>
                    Inr \<lparr>idx_id = uuid, idx_name = name, idx_description = description,
                         idx_created = created, idx_modified = modified,
                         idx_collections = out\<rparr>)))"

text \<open>
  \<^verbatim>\<open>generate_index\<close>: the events, the caller's bundles as the call leaves them, and the
  index or the exception.
\<close>

definition generate_index ::
  "(string \<Rightarrow> 't::linorder datetime option) \<Rightarrow> (version_entry list \<Rightarrow> version_entry list)
     \<Rightarrow> filesystem \<Rightarrow> string \<Rightarrow> string \<Rightarrow> string \<Rightarrow> string
     \<Rightarrow> string list \<Rightarrow> string list \<Rightarrow> stix_bundle list
     \<Rightarrow> event list \<times> stix_bundle list \<times> (error + 't index)" where
  "generate_index isoparse residue fs uuid name description root_url files folders bundles =
     (case build_table isoparse residue fs root_url files folders bundles of
        (tr, bundles', Inl e) \<Rightarrow> (tr, bundles', Inl e)
      | (tr, bundles', Inr collections) \<Rightarrow>
          (tr, bundles', assemble isoparse uuid name description collections))"

subsection \<open>Properties of the table\<close>

text \<open>
  A version list is sorted descending by \<^verbatim>\<open>modified\<close>: every timestamp parses, the
  datetimes can be compared with one another, and no version is followed by one with a
  later timestamp.
\<close>

definition versions_sorted ::
  "(string \<Rightarrow> 't::linorder datetime option) \<Rightarrow> version_entry list \<Rightarrow> bool" where
  "versions_sorted isoparse vs =
     (list_all (\<lambda>v. isoparse (v_modified v) \<noteq> None) vs
      \<and> comparable (map (\<lambda>v. the (isoparse (v_modified v))) vs)
      \<and> sorted_wrt (\<lambda>a b. instant (the (isoparse (v_modified a)))
                          \<ge> instant (the (isoparse (v_modified b)))) vs)"

text \<open>Every collection of the table has a version, and its versions are sorted.\<close>

definition table_inv :: "(string \<Rightarrow> 't::linorder datetime option) \<Rightarrow> table \<Rightarrow> bool" where
  "table_inv isoparse collections =
     list_all (\<lambda>(k, c). c_versions c \<noteq> [] \<and> versions_sorted isoparse (c_versions c)) collections"

text \<open>The versions the table holds for an identity; none when the identity is not a key.\<close>

definition versions_of :: "table \<Rightarrow> string \<Rightarrow> version_entry list" where
  "versions_of collections k =
     (case map_of collections k of None \<Rightarrow> [] | Some c \<Rightarrow> c_versions c)"

text \<open>
  The versions that the objects of one bundle contribute to an identity, in the order
  of the objects.
\<close>

definition contributed :: "string \<Rightarrow> string \<Rightarrow> stix_object list \<Rightarrow> version_entry list" where
  "contributed url k objs =
     concat (map (\<lambda>x. if obj_type x = collection_type \<and> getitem (obj_fields x) ''id'' = Inr k
                      then (case new_version x url of Inr v \<Rightarrow> [v] | Inl e \<Rightarrow> [])
                      else []) objs)"

text \<open>
  What the loop of lines 63-77 makes of one collection of the table: the name and the
  description of the last version, and the versions without theirs.
\<close>

definition finished :: "string \<times> collection_entry \<Rightarrow> index_collection \<Rightarrow> bool" where
  "finished kc r =
     (c_versions (snd kc) \<noteq> []
      \<and> ic_id r = c_id (snd kc) \<and> ic_created r = c_created (snd kc)
      \<and> ic_versions r = map strip_version (c_versions (snd kc))
      \<and> ic_name r = v_name (last (c_versions (snd kc)))
      \<and> ic_description r = v_description (last (c_versions (snd kc))))"

text \<open>
  A datetime is the earliest, or the latest, of a set: it belongs to the set, every
  datetime of the set can be compared with it, and none is earlier, or later.
\<close>

definition earliest_in :: "'t::linorder datetime \<Rightarrow> 't datetime set \<Rightarrow> bool" where
  "earliest_in m S =
     (m \<in> S \<and> (\<forall>s \<in> S. is_aware m = is_aware s \<and> instant m \<le> instant s))"

definition latest_in :: "'t::linorder datetime \<Rightarrow> 't datetime set \<Rightarrow> bool" where
  "latest_in m S =
     (m \<in> S \<and> (\<forall>s \<in> S. is_aware m = is_aware s \<and> instant s \<le> instant m))"

subsection \<open>An instance for evaluation\<close>

text \<open>
  For running the model on examples: a parser of the timestamps of the two forms
  \<^verbatim>\<open>YYYY-MM-DDThh:mm:ssZ\<close>, an aware datetime, and \<^verbatim>\<open>YYYY-MM-DDThh:mm:ss\<close>, a naive
  one. It reads the fourteen digits as a number and so orders the timestamps of one form
  as points in time, and rejects every other string.
\<close>

definition isoparse_example :: "string \<Rightarrow> int datetime option" where
  "isoparse_example s =
     (let shape = map (\<lambda>c. if in_class Digit c then CHR ''0'' else c) s;
          n = foldl (\<lambda>n c. 10 * n + (of_char c - 48)) 0 (filter (in_class Digit) s)
      in if shape = ''0000-00-00T00:00:00Z'' then Some (Aware n)
         else if shape = ''0000-00-00T00:00:00'' then Some (Naive n)
         else None)"

text \<open>
  Three versions of the collection \<^verbatim>\<open>X\<close>: Alpha, the later Beta, and Gamma, which
  carries another \<^verbatim>\<open>created\<close> and the \<^verbatim>\<open>modified\<close> of Alpha. Delta is a version of
  another collection, \<^verbatim>\<open>Y\<close>, created before \<^verbatim>\<open>X\<close>.
\<close>

definition alpha_object :: stix_object where
  "alpha_object =
     \<lparr>obj_type = ''x-mitre-collection'',
      obj_fields = [(''id'', ''X''), (''created'', ''2020-01-01T00:00:00Z''),
                    (''modified'', ''2020-02-01T00:00:00Z''), (''x_mitre_version'', ''1.0''),
                    (''name'', ''Alpha''), (''description'', ''first'')]\<rparr>"

definition beta_object :: stix_object where
  "beta_object =
     \<lparr>obj_type = ''x-mitre-collection'',
      obj_fields = [(''id'', ''X''), (''created'', ''2020-01-01T00:00:00Z''),
                    (''modified'', ''2021-01-01T00:00:00Z''), (''x_mitre_version'', ''2.0''),
                    (''name'', ''Beta''), (''description'', ''second'')]\<rparr>"

definition gamma_object :: stix_object where
  "gamma_object =
     \<lparr>obj_type = ''x-mitre-collection'',
      obj_fields = [(''id'', ''X''), (''created'', ''2019-06-01T00:00:00Z''),
                    (''modified'', ''2020-02-01T00:00:00Z''), (''x_mitre_version'', ''1.0b''),
                    (''name'', ''Gamma''), (''description'', ''third'')]\<rparr>"

definition delta_object :: stix_object where
  "delta_object =
     \<lparr>obj_type = ''x-mitre-collection'',
      obj_fields = [(''id'', ''Y''), (''created'', ''2019-03-01T00:00:00Z''),
                    (''modified'', ''2020-06-01T00:00:00Z''), (''x_mitre_version'', ''0.9''),
                    (''name'', ''Delta''), (''description'', ''fourth'')]\<rparr>"

definition other_object :: stix_object where
  "other_object = \<lparr>obj_type = ''attack-pattern'', obj_fields = [(''id'', ''P'')]\<rparr>"

text \<open>
  Three collection objects that make the loop body raise: one without a version label,
  one whose \<^verbatim>\<open>modified\<close> does not parse, and one whose \<^verbatim>\<open>modified\<close> is naive.
\<close>

definition unlabelled_object :: stix_object where
  "unlabelled_object =
     \<lparr>obj_type = ''x-mitre-collection'',
      obj_fields = [(''id'', ''Z''), (''created'', ''2020-01-01T00:00:00Z''),
                    (''modified'', ''2020-02-01T00:00:00Z''),
                    (''name'', ''Zeta''), (''description'', ''no version'')]\<rparr>"

definition undated_object :: stix_object where
  "undated_object =
     \<lparr>obj_type = ''x-mitre-collection'',
      obj_fields = [(''id'', ''X''), (''created'', ''2020-01-01T00:00:00Z''),
                    (''modified'', ''yesterday''), (''x_mitre_version'', ''3.0''),
                    (''name'', ''Eta''), (''description'', ''no date'')]\<rparr>"

definition naive_object :: stix_object where
  "naive_object =
     \<lparr>obj_type = ''x-mitre-collection'',
      obj_fields = [(''id'', ''X''), (''created'', ''2020-01-01T00:00:00''),
                    (''modified'', ''2022-01-01T00:00:00''), (''x_mitre_version'', ''4.0''),
                    (''name'', ''Theta''), (''description'', ''no offset'')]\<rparr>"

text \<open>
  A directory with two version files and a readme, a directory with a backup copy, and
  a directory without any version file.
\<close>

definition example_fs :: filesystem where
  "example_fs =
     \<lparr>fs_listdir = (\<lambda>d. if d = ''dir''
                         then Some [''foo-1.0.json'', ''foo-1.1.json'', ''readme.md'']
                         else if d = ''backup'' then Some [''foo-1.0.json.bak'', ''notes.txt'']
                         else if d = ''docs'' then Some [''readme.md'']
                         else None),
      fs_load = (\<lambda>p. if p = ''dir/foo-1.0.json''
                        then Some \<lparr>bundle_id = Some ''bundle--a'',
                                   bundle_objects = ObjList [alpha_object]\<rparr>
                      else if p = ''dir/foo-1.1.json''
                        then Some \<lparr>bundle_id = Some ''bundle--b'',
                                   bundle_objects = ObjList [beta_object, delta_object]\<rparr>
                      else None)\<rparr>"

text \<open>A bundle of the three versions and an object that is no collection, and the table
  that extracting it into the empty table gives.\<close>

definition example_bundle :: stix_bundle where
  "example_bundle =
     \<lparr>bundle_id = Some ''bundle--x'',
      bundle_objects = ObjList [alpha_object, other_object, beta_object, gamma_object]\<rparr>"

definition example_table :: table where
  "example_table =
     [(''X'', \<lparr>c_id = ''X'', c_created = ''2020-01-01T00:00:00Z'',
              c_versions =
                [\<lparr>v_version = ''2.0'', v_url = ''u'', v_modified = ''2021-01-01T00:00:00Z'',
                  v_name = ''Beta'', v_description = ''second''\<rparr>,
                 \<lparr>v_version = ''1.0'', v_url = ''u'', v_modified = ''2020-02-01T00:00:00Z'',
                  v_name = ''Alpha'', v_description = ''first''\<rparr>,
                 \<lparr>v_version = ''1.0b'', v_url = ''u'', v_modified = ''2020-02-01T00:00:00Z'',
                  v_name = ''Gamma'', v_description = ''third''\<rparr>]\<rparr>)]"

text \<open>A bundle without a collection object.\<close>

definition other_bundle :: stix_bundle where
  "other_bundle =
     \<lparr>bundle_id = Some ''bundle--o'', bundle_objects = ObjList [other_object]\<rparr>"

text \<open>A second bundle, with Gamma alone.\<close>

definition gamma_bundle :: stix_bundle where
  "gamma_bundle =
     \<lparr>bundle_id = Some ''bundle--g'', bundle_objects = ObjList [gamma_object]\<rparr>"

text \<open>
  The table, the index and the events of a run over the directory \<^verbatim>\<open>dir\<close> with the
  root URL \<^verbatim>\<open>http://r\<close>.
\<close>

definition example_dir_table :: table where
  "example_dir_table =
     [(''X'', \<lparr>c_id = ''X'', c_created = ''2020-01-01T00:00:00Z'',
              c_versions =
                [\<lparr>v_version = ''2.0'', v_url = ''http://r/dir/foo-1.1.json'',
                  v_modified = ''2021-01-01T00:00:00Z'',
                  v_name = ''Beta'', v_description = ''second''\<rparr>,
                 \<lparr>v_version = ''1.0'', v_url = ''http://r/dir/foo-1.0.json'',
                  v_modified = ''2020-02-01T00:00:00Z'',
                  v_name = ''Alpha'', v_description = ''first''\<rparr>]\<rparr>),
      (''Y'', \<lparr>c_id = ''Y'', c_created = ''2019-03-01T00:00:00Z'',
              c_versions =
                [\<lparr>v_version = ''0.9'', v_url = ''http://r/dir/foo-1.1.json'',
                  v_modified = ''2020-06-01T00:00:00Z'',
                  v_name = ''Delta'', v_description = ''fourth''\<rparr>]\<rparr>)]"

definition example_index :: "int index" where
  "example_index =
     \<lparr>idx_id = ''u'', idx_name = ''n'', idx_description = ''d'',
      idx_created = Aware 20190301000000, idx_modified = Aware 20210101000000,
      idx_collections =
        [\<lparr>ic_id = ''X'', ic_created = ''2020-01-01T00:00:00Z'',
          ic_versions =
            [\<lparr>iv_version = ''2.0'', iv_url = ''http://r/dir/foo-1.1.json'',
              iv_modified = ''2021-01-01T00:00:00Z''\<rparr>,
             \<lparr>iv_version = ''1.0'', iv_url = ''http://r/dir/foo-1.0.json'',
              iv_modified = ''2020-02-01T00:00:00Z''\<rparr>],
          ic_name = ''Alpha'', ic_description = ''first''\<rparr>,
         \<lparr>ic_id = ''Y'', ic_created = ''2019-03-01T00:00:00Z'',
          ic_versions =
            [\<lparr>iv_version = ''0.9'', iv_url = ''http://r/dir/foo-1.1.json'',
              iv_modified = ''2020-06-01T00:00:00Z''\<rparr>],
          ic_name = ''Delta'', ic_description = ''fourth''\<rparr>]\<rparr>"

definition example_trace :: "event list" where
  "example_trace = [ListDir ''dir'', OpenFile ''dir/foo-1.0.json'', OpenFile ''dir/foo-1.1.json'']"

text \<open>Bundles with the objects that make the loop body raise.\<close>

definition unlabelled_bundle :: stix_bundle where
  "unlabelled_bundle =
     \<lparr>bundle_id = Some ''bundle--z'', bundle_objects = ObjList [unlabelled_object]\<rparr>"

definition undated_bundle :: stix_bundle where
  "undated_bundle =
     \<lparr>bundle_id = Some ''bundle--e'', bundle_objects = ObjList [undated_object]\<rparr>"

definition naive_bundle :: stix_bundle where
  "naive_bundle =
     \<lparr>bundle_id = Some ''bundle--t'', bundle_objects = ObjList [naive_object]\<rparr>"



text \<open>
  A table with two collections whose \<^verbatim>\<open>created\<close> are one aware and one naive.
\<close>

definition mixed_table :: table where
  "mixed_table =
     [(''X'', \<lparr>c_id = ''X'', c_created = ''2020-01-01T00:00:00Z'',
              c_versions =
                [\<lparr>v_version = ''1.0'', v_url = ''u'', v_modified = ''2020-02-01T00:00:00Z'',
                  v_name = ''Alpha'', v_description = ''first''\<rparr>]\<rparr>),
      (''W'', \<lparr>c_id = ''W'', c_created = ''2020-01-01T00:00:00'',
              c_versions =
                [\<lparr>v_version = ''1.0'', v_url = ''u'', v_modified = ''2020-03-01T00:00:00Z'',
                  v_name = ''Omega'', v_description = ''last''\<rparr>]\<rparr>)]"

section \<open>Sorting and insertion\<close>

lemma filter_sort_key_same_key:
  assumes "\<And>x y. P x \<Longrightarrow> P y \<Longrightarrow> f x = f y"
  shows "filter P (sort_key f xs) = filter P xs"
proof (cases "\<exists>x \<in> set xs. P x")
  case False
  then show ?thesis by (simp add: filter_empty_conv)
next
  case True
  then obtain x0 where x0: "P x0" by blast
  have narrow: "filter P ys = filter P (filter (\<lambda>y. f y = f x0) ys)" for ys
    using assms[OF _ x0] by (auto intro: filter_cong)
  have "filter P (sort_key f xs) = filter P (filter (\<lambda>y. f y = f x0) (sort_key f xs))"
    by (rule narrow)
  also have "\<dots> = filter P (filter (\<lambda>y. f y = f x0) xs)"
    by (simp only: sort_key_stable)
  also have "\<dots> = filter P xs"
    by (rule narrow[symmetric])
  finally show ?thesis .
qed

lemma sort_versions_None:
  assumes "sort_versions isoparse residue vs = (ws, None)"
  shows "ws = rev (sort_key (\<lambda>v. instant (the (isoparse (v_modified v)))) (rev vs))"
    and "\<forall>v \<in> set vs. isoparse (v_modified v) \<noteq> None"
    and "comparable (map (\<lambda>v. the (isoparse (v_modified v))) vs)"
  using assms
  by (auto simp: sort_versions_def find_None_iff split: option.splits if_splits)

lemma sort_versions_set:
  "sort_versions isoparse residue vs = (ws, None) \<Longrightarrow> set ws = set vs"
  by (auto dest!: sort_versions_None(1))

lemma sort_versions_length:
  "sort_versions isoparse residue vs = (ws, None) \<Longrightarrow> length ws = length vs"
  by (auto dest!: sort_versions_None(1))

lemma sort_versions_sorted:
  assumes "sort_versions isoparse residue vs = (ws, None)"
  shows "versions_sorted isoparse ws"
proof -
  let ?f = "\<lambda>v. instant (the (isoparse (v_modified v)))"
  have ws: "ws = rev (sort_key ?f (rev vs))"
    using assms by (rule sort_versions_None(1))
  have s: "set ws = set vs"
    using assms by (rule sort_versions_set)
  have all: "\<forall>v \<in> set ws. isoparse (v_modified v) \<noteq> None"
    using sort_versions_None(2)[OF assms] s by simp
  have cmp: "comparable (map (\<lambda>v. the (isoparse (v_modified v))) ws)"
    using sort_versions_None(3)[OF assms] s
    by (simp add: comparable_def list_all_iff)
  have "sorted (map ?f (sort_key ?f (rev vs)))"
    by (rule sorted_sort_key)
  then have "sorted_wrt (\<lambda>a b. ?f a \<le> ?f b) (sort_key ?f (rev vs))"
    by (simp add: sorted_map)
  then have "sorted_wrt (\<lambda>a b. ?f b \<le> ?f a) ws"
    unfolding ws by (simp add: sorted_wrt_rev)
  with all cmp show ?thesis
    by (simp add: versions_sorted_def list_all_iff)
qed

lemma sort_versions_stable:
  assumes "sort_versions isoparse residue vs = (ws, None)"
  shows "filter (\<lambda>v. isoparse (v_modified v) = Some t) ws
         = filter (\<lambda>v. isoparse (v_modified v) = Some t) vs"
proof -
  let ?f = "\<lambda>v. instant (the (isoparse (v_modified v)))"
  let ?P = "\<lambda>v. isoparse (v_modified v) = Some t"
  have ws: "ws = rev (sort_key ?f (rev vs))"
    using assms by (rule sort_versions_None(1))
  have "filter ?P ws = rev (filter ?P (sort_key ?f (rev vs)))"
    unfolding ws by (simp add: rev_filter)
  also have "filter ?P (sort_key ?f (rev vs)) = filter ?P (rev vs)"
    by (rule filter_sort_key_same_key) simp
  also have "rev (filter ?P (rev vs)) = filter ?P vs"
    by (simp add: rev_filter)
  finally show ?thesis .
qed

lemma list_all_update:
  "list_all P al \<Longrightarrow> P (k, v) \<Longrightarrow> list_all P (AList.update k v al)"
  by (induction al) auto

lemma add_version_None:
  assumes "add_version isoparse residue x collections url = (collections', None)"
  shows "\<exists>cid v ws.
           getitem (obj_fields x) ''id'' = Inr cid
         \<and> new_version x url = Inr v
         \<and> sort_versions isoparse residue (versions_of collections cid @ [v]) = (ws, None)
         \<and> (case map_of collections cid of
               Some c \<Rightarrow> collections' = AList.update cid (c\<lparr>c_versions := ws\<rparr>) collections
             | None \<Rightarrow> \<exists>cr. getitem (obj_fields x) ''created'' = Inr cr
                  \<and> collections' = AList.update cid
                        \<lparr>c_id = cid, c_created = cr, c_versions = ws\<rparr> collections)"
  using assms
  by (auto simp: add_version_def ensure_collection_def versions_of_def update_conv'
           split: sum.splits option.splits if_splits prod.splits)

lemma add_version_versions_of:
  assumes "add_version isoparse residue x collections url = (collections', None)"
  shows "\<exists>cid v ws.
           getitem (obj_fields x) ''id'' = Inr cid
         \<and> new_version x url = Inr v
         \<and> sort_versions isoparse residue (versions_of collections cid @ [v]) = (ws, None)
         \<and> versions_of collections' = (versions_of collections)(cid := ws)"
proof -
  from add_version_None[OF assms] obtain cid v ws where
    a: "getitem (obj_fields x) ''id'' = Inr cid" "new_version x url = Inr v"
       "sort_versions isoparse residue (versions_of collections cid @ [v]) = (ws, None)"
    and b: "(case map_of collections cid of
               Some c \<Rightarrow> collections' = AList.update cid (c\<lparr>c_versions := ws\<rparr>) collections
             | None \<Rightarrow> \<exists>cr. getitem (obj_fields x) ''created'' = Inr cr
                  \<and> collections' = AList.update cid
                        \<lparr>c_id = cid, c_created = cr, c_versions = ws\<rparr> collections)"
    by blast
  from b have "versions_of collections' = (versions_of collections)(cid := ws)"
    by (auto simp: versions_of_def update_conv' fun_eq_iff split: option.splits)
  with a show ?thesis by blast
qed

lemma add_version_inv:
  assumes "add_version isoparse residue x collections url = (collections', None)"
    and "table_inv isoparse collections"
  shows "table_inv isoparse collections'"
proof -
  from add_version_None[OF assms(1)] obtain cid v ws where
    s: "sort_versions isoparse residue (versions_of collections cid @ [v]) = (ws, None)"
    and b: "(case map_of collections cid of
               Some c \<Rightarrow> collections' = AList.update cid (c\<lparr>c_versions := ws\<rparr>) collections
             | None \<Rightarrow> \<exists>cr. getitem (obj_fields x) ''created'' = Inr cr
                  \<and> collections' = AList.update cid
                        \<lparr>c_id = cid, c_created = cr, c_versions = ws\<rparr> collections)"
    by blast
  have "ws \<noteq> []"
    using sort_versions_length[OF s] by auto
  moreover have "versions_sorted isoparse ws"
    by (rule sort_versions_sorted[OF s])
  ultimately show ?thesis
    using b assms(2)
    by (auto simp: table_inv_def split: option.splits intro!: list_all_update)
qed

lemma extract_objects_None_rest:
  "extract_objects isoparse residue objs collections url = (collections', rest, None) \<Longrightarrow>
   rest = []"
  by (induction objs arbitrary: collections)
     (auto split: if_splits prod.splits option.splits)

lemma extract_objects_inv:
  "extract_objects isoparse residue objs collections url = (collections', rest, None) \<Longrightarrow>
   table_inv isoparse collections \<Longrightarrow> table_inv isoparse collections'"
  by (induction objs arbitrary: collections)
     (auto split: if_splits prod.splits option.splits dest: add_version_inv)

lemma extract_collection_None:
  assumes "extract_collection isoparse residue b collections url = (collections', b', None)"
  shows "extract_objects isoparse residue (pending (bundle_objects b)) collections url
           = (collections', [], None)"
    and "b' = b\<lparr>bundle_objects := after_reading (bundle_objects b) []\<rparr>"
  using assms
  by (auto simp: extract_collection_def split: prod.splits
           dest: extract_objects_None_rest)

lemma extract_objects_stable:
  "extract_objects isoparse residue objs collections url = (collections', rest, None) \<Longrightarrow>
   filter (\<lambda>v. isoparse (v_modified v) = Some t) (versions_of collections' k)
   = filter (\<lambda>v. isoparse (v_modified v) = Some t)
       (versions_of collections k @ contributed url k objs)"
proof (induction objs arbitrary: collections)
  case Nil
  then show ?case by (simp add: contributed_def)
next
  case (Cons x xs)
  show ?case
  proof (cases "obj_type x = collection_type")
    case False
    with Cons show ?thesis by (simp add: contributed_def)
  next
    case True
    with Cons.prems obtain c1 where
      a: "add_version isoparse residue x collections url = (c1, None)"
      and r: "extract_objects isoparse residue xs c1 url = (collections', rest, None)"
      by (auto split: prod.splits option.splits)
    from add_version_versions_of[OF a] obtain cid v ws where
      i: "getitem (obj_fields x) ''id'' = Inr cid" and n: "new_version x url = Inr v"
      and s: "sort_versions isoparse residue (versions_of collections cid @ [v]) = (ws, None)"
      and vo: "versions_of c1 = (versions_of collections)(cid := ws)"
      by blast
    have step: "filter (\<lambda>v. isoparse (v_modified v) = Some t) (versions_of c1 k)
          = filter (\<lambda>v. isoparse (v_modified v) = Some t)
              (versions_of collections k @ contributed url k [x])"
    proof (cases "k = cid")
      case True
      have "contributed url k [x] = [v]"
        using \<open>obj_type x = collection_type\<close> True i n by (simp add: contributed_def)
      moreover have "versions_of c1 k = ws"
        using True by (simp add: vo)
      ultimately show ?thesis
        using sort_versions_stable[OF s] True by simp
    next
      case False
      have "contributed url k [x] = []"
        using False i by (auto simp: contributed_def)
      moreover have "versions_of c1 k = versions_of collections k"
        using False by (simp add: vo)
      ultimately show ?thesis by simp
    qed
    have "contributed url k (x # xs) = contributed url k [x] @ contributed url k xs"
      by (simp add: contributed_def)
    with Cons.IH[OF r] step show ?thesis by simp
  qed
qed

section \<open>The version lists stay sorted\<close>

text \<open>
  Claim C4, for the calls that return. When every collection of the table has a version
  list that is not empty and is sorted descending by \<^verbatim>\<open>modified\<close>, the same holds
  after one insertion (\<open>add_version\<close>, the body of the loop) that does not raise and after
  a whole call of \<open>extract_collection\<close> that returns. The sort is stable: among the
  versions of one identity that carry the same timestamp, the order after the call is
  the order they had in the table followed by the order in which the bundle contributed
  them.
\<close>

theorem extract_collection_keeps_versions_sorted:
  assumes "table_inv isoparse collections"
  shows "(\<forall>x t1. add_version isoparse residue x collections url = (t1, None)
            \<longrightarrow> table_inv isoparse t1)
       \<and> (\<forall>t2 b2. extract_collection isoparse residue input_bundle collections url
                    = (t2, b2, None) \<longrightarrow>
             table_inv isoparse t2
           \<and> (\<forall>k t. filter (\<lambda>v. isoparse (v_modified v) = Some t) (versions_of t2 k)
                    = filter (\<lambda>v. isoparse (v_modified v) = Some t)
                        (versions_of collections k
                           @ contributed url k (pending (bundle_objects input_bundle)))))"
proof (intro conjI allI impI)
  fix x t1
  assume "add_version isoparse residue x collections url = (t1, None)"
  then show "table_inv isoparse t1"
    using assms by (rule add_version_inv)
next
  fix t2 b2
  assume "extract_collection isoparse residue input_bundle collections url = (t2, b2, None)"
  from extract_collection_None(1)[OF this] assms show "table_inv isoparse t2"
    by (rule extract_objects_inv)
next
  fix t2 b2 k t
  assume "extract_collection isoparse residue input_bundle collections url = (t2, b2, None)"
  from extract_collection_None(1)[OF this]
  show "filter (\<lambda>v. isoparse (v_modified v) = Some t) (versions_of t2 k)
           = filter (\<lambda>v. isoparse (v_modified v) = Some t)
               (versions_of collections k
                  @ contributed url k (pending (bundle_objects input_bundle)))"
    by (rule extract_objects_stable)
qed

theorem extract_collection_keeps_versions_sorted_witness:
  "table_inv isoparse_example []
   \<and> extract_collection isoparse_example id example_bundle [] ''u''
       = (example_table, example_bundle, None)
   \<and> table_inv isoparse_example example_table
   \<and> map v_name (filter (\<lambda>v. isoparse_example (v_modified v) = Some (Aware 20200201000000))
        (versions_of example_table ''X'')) = [''Alpha'', ''Gamma'']"
proof -
  have h: "table_inv isoparse_example []"
    by (simp add: table_inv_def)
  have e: "extract_collection isoparse_example id example_bundle [] ''u''
             = (example_table, example_bundle, None)"
    by code_simp
  have c: "map v_name
             (filter (\<lambda>v. isoparse_example (v_modified v) = Some (Aware 20200201000000))
                (versions_of example_table ''X'')) = [''Alpha'', ''Gamma'']"
    by code_simp
  from extract_collection_keeps_versions_sorted
         [OF h, where input_bundle = example_bundle and url = "''u''" and residue = id] e
  have "table_inv isoparse_example example_table" by simp
  with h e c show ?thesis by simp
qed

text \<open>
  The claim as stated fails for a call that raises. A collection object without
  \<^verbatim>\<open>x_mitre_version\<close> and with a new identity leaves its collection in the dict with
  an empty version list: lines 101-105 have run when line 110 raises. A version whose
  \<^verbatim>\<open>modified\<close> does not parse stays appended, after the versions it should precede or
  follow, when the sort of line 117 raises. A version whose \<^verbatim>\<open>modified\<close> is naive,
  appended to aware ones, makes the sort raise \<^verbatim>\<open>TypeError\<close>.
\<close>

theorem raising_call_counterexample:
  "table_inv isoparse_example example_table
   \<and> extract_collection isoparse_example id unlabelled_bundle example_table ''u''
       = (example_table
            @ [(''Z'', \<lparr>c_id = ''Z'', c_created = ''2020-01-01T00:00:00Z'',
                       c_versions = []\<rparr>)],
          unlabelled_bundle, Some (KeyError ''x_mitre_version''))
   \<and> \<not> table_inv isoparse_example
         (example_table
            @ [(''Z'', \<lparr>c_id = ''Z'', c_created = ''2020-01-01T00:00:00Z'',
                       c_versions = []\<rparr>)])
   \<and> fst (extract_collection isoparse_example id undated_bundle example_table ''u'')
       = [(''X'', \<lparr>c_id = ''X'', c_created = ''2020-01-01T00:00:00Z'',
                   c_versions = versions_of example_table ''X''
                     @ [\<lparr>v_version = ''3.0'', v_url = ''u'', v_modified = ''yesterday'',
                         v_name = ''Eta'', v_description = ''no date''\<rparr>]\<rparr>)]
   \<and> snd (snd (extract_collection isoparse_example id undated_bundle example_table ''u''))
       = Some (ValueError ''yesterday'')
   \<and> \<not> table_inv isoparse_example
         (fst (extract_collection isoparse_example id undated_bundle example_table ''u''))
   \<and> snd (snd (extract_collection isoparse_example id naive_bundle example_table ''u''))
       = Some TypeError"
  by code_simp

section \<open>The creation date of a collection\<close>

lemma add_version_created_kept:
  assumes "add_version isoparse residue x collections url = (collections', e)"
    and "map_of collections k = Some c"
  shows "\<exists>c'. map_of collections' k = Some c' \<and> c_created c' = c_created c"
  using assms
  by (cases "getitem (obj_fields x) ''id'' = Inr k")
     (auto simp: add_version_def ensure_collection_def update_conv'
           split: sum.splits option.splits if_splits prod.splits)

lemma add_version_created_new:
  assumes "add_version isoparse residue x collections url = (collections', e)"
    and "map_of collections k = None"
    and "map_of collections' k = Some c'"
  shows "getitem (obj_fields x) ''id'' = Inr k
       \<and> getitem (obj_fields x) ''created'' = Inr (c_created c')"
  using assms
  by (cases "getitem (obj_fields x) ''id'' = Inr k")
     (auto simp: add_version_def ensure_collection_def update_conv'
           split: sum.splits option.splits if_splits prod.splits)

lemma add_version_creates:
  assumes "add_version isoparse residue x collections url = (collections', None)"
    and "getitem (obj_fields x) ''id'' = Inr k"
  shows "map_of collections' k \<noteq> None"
  using assms
  by (auto simp: add_version_def ensure_collection_def update_conv'
           split: sum.splits option.splits if_splits prod.splits)

lemma extract_objects_created_kept:
  "extract_objects isoparse residue objs collections url = (collections', rest, e) \<Longrightarrow>
   map_of collections k = Some c \<Longrightarrow>
   \<exists>c'. map_of collections' k = Some c' \<and> c_created c' = c_created c"
proof (induction objs arbitrary: collections c)
  case Nil
  then show ?case by simp
next
  case (Cons x xs)
  show ?case
  proof (cases "obj_type x = collection_type")
    case False
    with Cons show ?thesis by simp
  next
    case True
    obtain c1 e1 where a: "add_version isoparse residue x collections url = (c1, e1)"
      by (cases "add_version isoparse residue x collections url")
    from add_version_created_kept[OF a Cons.prems(2)] obtain d where
      d: "map_of c1 k = Some d" "c_created d = c_created c" by blast
    show ?thesis
    proof (cases e1)
      case None
      with Cons.prems(1) True a
      have r: "extract_objects isoparse residue xs c1 url = (collections', rest, e)"
        by simp
      from Cons.IH[OF r d(1)] d(2) show ?thesis by simp
    next
      case (Some err)
      with Cons.prems(1) True a have "collections' = c1" by simp
      with d show ?thesis by simp
    qed
  qed
qed

lemma extract_objects_created_new:
  "extract_objects isoparse residue objs collections url = (collections', rest, e) \<Longrightarrow>
   map_of collections k = None \<Longrightarrow> map_of collections' k = Some c' \<Longrightarrow>
   \<exists>x. find (\<lambda>x. obj_type x = collection_type \<and> getitem (obj_fields x) ''id'' = Inr k) objs
          = Some x
       \<and> getitem (obj_fields x) ''created'' = Inr (c_created c')"
proof (induction objs arbitrary: collections)
  case Nil
  then show ?case by simp
next
  case (Cons x xs)
  show ?case
  proof (cases "obj_type x = collection_type")
    case False
    with Cons show ?thesis by simp
  next
    case True
    obtain c1 e1 where a: "add_version isoparse residue x collections url = (c1, e1)"
      by (cases "add_version isoparse residue x collections url")
    show ?thesis
    proof (cases e1)
      case (Some err)
      with Cons.prems(1) True a have "collections' = c1" by simp
      with add_version_created_new[OF a Cons.prems(2)] Cons.prems(3) True
      show ?thesis by simp
    next
      case None
      with Cons.prems(1) True a
      have r: "extract_objects isoparse residue xs c1 url = (collections', rest, e)"
        by simp
      show ?thesis
      proof (cases "map_of c1 k")
        case None
        then have "getitem (obj_fields x) ''id'' \<noteq> Inr k"
          using add_version_creates[OF a[unfolded \<open>e1 = None\<close>]] by auto
        with Cons.IH[OF r None Cons.prems(3)] show ?thesis by simp
      next
        case (Some d)
        from add_version_created_new[OF a Cons.prems(2) Some]
        have i: "getitem (obj_fields x) ''id'' = Inr k"
          and cr: "getitem (obj_fields x) ''created'' = Inr (c_created d)"
          by simp_all
        from extract_objects_created_kept[OF r Some] Cons.prems(3)
        have "c_created c' = c_created d" by simp
        with i cr True show ?thesis by simp
      qed
    qed
  qed
qed

text \<open>
  Claim C5. For every identity \<open>k\<close> and every call of \<open>extract_collection\<close>, whether it
  returns or raises: a collection that the table already holds for \<open>k\<close> keeps its
  \<^verbatim>\<open>created\<close>, whatever the objects of the bundle carry; and a collection that the call
  creates for \<open>k\<close> has the \<^verbatim>\<open>created\<close> of the first collection object of the bundle
  with that identity.
\<close>

theorem created_fixed_by_first_object:
  assumes "extract_collection isoparse residue input_bundle collections url
             = (collections', bundle', e)"
  shows "(\<forall>c. map_of collections k = Some c \<longrightarrow>
            (\<exists>c'. map_of collections' k = Some c' \<and> c_created c' = c_created c))
       \<and> (\<forall>c'. map_of collections k = None \<and> map_of collections' k = Some c' \<longrightarrow>
            (\<exists>x. find (\<lambda>x. obj_type x = collection_type
                              \<and> getitem (obj_fields x) ''id'' = Inr k)
                     (pending (bundle_objects input_bundle)) = Some x
                \<and> getitem (obj_fields x) ''created'' = Inr (c_created c')))"
proof -
  from assms obtain rest where
    "extract_objects isoparse residue (pending (bundle_objects input_bundle)) collections url
       = (collections', rest, e)"
    by (auto simp: extract_collection_def split: prod.splits)
  then show ?thesis
    by (auto dest: extract_objects_created_kept extract_objects_created_new)
qed

theorem created_fixed_by_first_object_witness:
  "extract_collection isoparse_example id example_bundle [] ''u''
     = (example_table, example_bundle, None)
   \<and> getitem (obj_fields alpha_object) ''created''
       = Inr (c_created (the (map_of example_table ''X'')))
   \<and> getitem (obj_fields gamma_object) ''created'' = Inr ''2019-06-01T00:00:00Z''
   \<and> extract_collection isoparse_example id gamma_bundle example_table ''g''
       = ([(''X'', \<lparr>c_id = ''X'', c_created = ''2020-01-01T00:00:00Z'',
                      c_versions = versions_of example_table ''X''
                        @ [\<lparr>v_version = ''1.0b'', v_url = ''g'',
                            v_modified = ''2020-02-01T00:00:00Z'',
                            v_name = ''Gamma'', v_description = ''third''\<rparr>]\<rparr>)],
          gamma_bundle, None)
   \<and> c_created (the (map_of example_table ''X'')) = ''2020-01-01T00:00:00Z''"
proof -
  let ?t = "[(''X'', \<lparr>c_id = ''X'', c_created = ''2020-01-01T00:00:00Z'',
                      c_versions = versions_of example_table ''X''
                        @ [\<lparr>v_version = ''1.0b'', v_url = ''g'',
                            v_modified = ''2020-02-01T00:00:00Z'',
                            v_name = ''Gamma'', v_description = ''third''\<rparr>]\<rparr>)]"
  have e1: "extract_collection isoparse_example id example_bundle [] ''u''
              = (example_table, example_bundle, None)"
    by code_simp
  have e2: "extract_collection isoparse_example id gamma_bundle example_table ''g''
              = (?t, gamma_bundle, None)"
    by code_simp
  have f: "find (\<lambda>x. obj_type x = collection_type \<and> getitem (obj_fields x) ''id'' = Inr ''X'')
             (pending (bundle_objects example_bundle)) = Some alpha_object"
    by code_simp
  have g: "getitem (obj_fields gamma_object) ''created'' = Inr ''2019-06-01T00:00:00Z''"
    by code_simp
  have m: "map_of example_table ''X'' = Some (the (map_of example_table ''X''))"
    by (simp add: example_table_def)
  from created_fixed_by_first_object[OF e1, of "''X''"] f m
  have a: "getitem (obj_fields alpha_object) ''created''
       = Inr (c_created (the (map_of example_table ''X'')))"
    by simp
  from created_fixed_by_first_object[OF e2, of "''X''"] m
  have b: "c_created (the (map_of example_table ''X'')) = ''2020-01-01T00:00:00Z''"
    by auto
  from e1 e2 a b g show ?thesis by simp
qed

section \<open>Assembly of the index\<close>

lemma dt_less_Inr:
  "dt_less a b = Inr r \<longleftrightarrow> (is_aware a = is_aware b \<and> r = (instant a < instant b))"
  by (cases a; cases b) auto

lemma dt_less_same_kind:
  "is_aware a = is_aware b \<Longrightarrow> dt_less a b = Inr (instant a < instant b)"
  by (cases a; cases b) auto

lemma later_of_Inr:
  assumes "later_of im t = Inr m"
  shows "latest_in m (set_option im \<union> {t})"
  using assms
  by (cases im)
     (auto simp: latest_in_def dt_less_Inr split: sum.splits if_splits)

lemma earlier_of_Inr:
  assumes "earlier_of ic t = Inr m"
  shows "earliest_in m (set_option ic \<union> {t})"
  using assms
  by (cases ic)
     (auto simp: earliest_in_def dt_less_Inr split: sum.splits if_splits)

lemma latest_in_step:
  assumes "latest_in m1 A" and "latest_in m (insert m1 B)"
  shows "latest_in m (A \<union> B)"
  using assms unfolding latest_in_def
  by (auto intro: order_trans)

lemma earliest_in_step:
  assumes "earliest_in m1 A" and "earliest_in m (insert m1 B)"
  shows "earliest_in m (A \<union> B)"
  using assms unfolding earliest_in_def
  by (auto intro: order_trans)

lemma strip_versions_Inr:
  "strip_versions isoparse vs im = Inr (out, im') \<Longrightarrow>
   \<exists>mts. map (\<lambda>v. isoparse (v_modified v)) vs = map Some mts
       \<and> out = map strip_version vs
       \<and> (case im' of
             None \<Rightarrow> im = None \<and> mts = []
           | Some m \<Rightarrow> latest_in m (set_option im \<union> set mts))"
proof (induction vs arbitrary: im out im')
  case Nil
  then show ?case by (auto simp: latest_in_def split: option.splits)
next
  case (Cons v vs)
  from Cons.prems obtain t m1 out1 where
    t: "isoparse (v_modified v) = Some t"
    and l: "later_of im t = Inr m1"
    and r: "strip_versions isoparse vs (Some m1) = Inr (out1, im')"
    and o: "out = strip_version v # out1"
    by (auto split: option.splits sum.splits)
  from Cons.IH[OF r] obtain mts m where
    m: "map (\<lambda>v. isoparse (v_modified v)) vs = map Some mts"
    and o1: "out1 = map strip_version vs"
    and im': "im' = Some m"
    and c: "latest_in m (insert m1 (set mts))"
    by (auto split: option.splits)
  from latest_in_step[OF later_of_Inr[OF l] c]
  have "latest_in m (set_option im \<union> set (t # mts))"
    by (simp add: Un_commute insert_commute Un_assoc)
  with t m o o1 im' show ?case
    by (intro exI[of _ "t # mts"]) simp
qed

lemma finish_collections_Inr:
  "finish_collections isoparse collections ic im = Inr (out, ic', im') \<Longrightarrow>
   \<exists>cts mts.
       map (\<lambda>(k, c). isoparse (c_created c)) collections = map Some cts
     \<and> concat (map (\<lambda>(k, c). map (\<lambda>v. isoparse (v_modified v)) (c_versions c)) collections)
         = map Some mts
     \<and> list_all2 finished collections out
     \<and> (case ic' of
           None \<Rightarrow> ic = None \<and> cts = []
         | Some m \<Rightarrow> earliest_in m (set_option ic \<union> set cts))
     \<and> (case im' of
           None \<Rightarrow> im = None \<and> mts = []
         | Some m \<Rightarrow> latest_in m (set_option im \<union> set mts))"
proof (induction collections arbitrary: ic im out ic' im')
  case Nil
  then show ?case by (auto simp: earliest_in_def latest_in_def split: option.splits)
next
  case (Cons kc rest)
  obtain k c where kc: "kc = (k, c)" by (cases kc)
  from Cons.prems kc obtain t c1 vs1 im1 out1 where
    ne: "c_versions c \<noteq> []"
    and t: "isoparse (c_created c) = Some t"
    and e: "earlier_of ic t = Inr c1"
    and sv: "strip_versions isoparse (c_versions c) im = Inr (vs1, im1)"
    and r: "finish_collections isoparse rest (Some c1) im1 = Inr (out1, ic', im')"
    and o: "out = \<lparr>ic_id = c_id c, ic_created = c_created c, ic_versions = vs1,
                   ic_name = v_name (last (c_versions c)),
                   ic_description = v_description (last (c_versions c))\<rparr> # out1"
    by (auto split: option.splits sum.splits if_splits)
  from strip_versions_Inr[OF sv] obtain mts1 where
    m1: "map (\<lambda>v. isoparse (v_modified v)) (c_versions c) = map Some mts1"
    and v1: "vs1 = map strip_version (c_versions c)"
    and c1: "(case im1 of
             None \<Rightarrow> im = None \<and> mts1 = []
           | Some m \<Rightarrow> latest_in m (set_option im \<union> set mts1))"
    by blast
  from m1 ne have "mts1 \<noteq> []" by auto
  with c1 obtain m1' where im1: "im1 = Some m1'"
    and l1: "latest_in m1' (set_option im \<union> set mts1)"
    by (auto split: option.splits)
  from Cons.IH[OF r] im1 obtain cts mts mc mm where
    a: "map (\<lambda>(k, c). isoparse (c_created c)) rest = map Some cts"
    and b: "concat (map (\<lambda>(k, c). map (\<lambda>v. isoparse (v_modified v)) (c_versions c)) rest)
         = map Some mts"
    and l: "list_all2 finished rest out1"
    and ic': "ic' = Some mc" and ci: "earliest_in mc (insert c1 (set cts))"
    and im': "im' = Some mm" and cm: "latest_in mm (insert m1' (set mts))"
    by (auto split: option.splits)
  have A: "map (\<lambda>(k, c). isoparse (c_created c)) (kc # rest) = map Some (t # cts)"
    using a t kc by simp
  have B: "concat (map (\<lambda>(k, c). map (\<lambda>v. isoparse (v_modified v)) (c_versions c)) (kc # rest))
         = map Some (mts1 @ mts)"
    using b m1 kc by simp
  have L: "list_all2 finished (kc # rest) out"
    using l o ne v1 kc by (simp add: finished_def)
  from earliest_in_step[OF earlier_of_Inr[OF e] ci]
  have CI: "earliest_in mc (set_option ic \<union> set (t # cts))"
    by (simp add: Un_commute insert_commute Un_assoc)
  from latest_in_step[OF l1 cm]
  have CM: "latest_in mm (set_option im \<union> set (mts1 @ mts))"
    by (simp add: Un_assoc)
  from A B L CI CM ic' im' show ?case
    by (intro exI[of _ "t # cts"] exI[of _ "mts1 @ mts"]) simp
qed

lemma extract_files_inv:
  "extract_files isoparse residue fs root_url files collections = (tr, Inr collections') \<Longrightarrow>
   table_inv isoparse collections \<Longrightarrow> table_inv isoparse collections'"
proof (induction files arbitrary: collections tr)
  case Nil
  then show ?case by simp
next
  case (Cons f rest)
  from Cons.prems(1) obtain b b' c1 tr1 where
    e: "extract_collection isoparse residue b collections (collection_url root_url f)
          = (c1, b', None)"
    and r: "extract_files isoparse residue fs root_url rest c1 = (tr1, Inr collections')"
    by (auto split: option.splits sum.splits prod.splits)
  from extract_collection_None(1)[OF e] Cons.prems(2) have "table_inv isoparse c1"
    by (rule extract_objects_inv)
  with Cons.IH[OF r] show ?case .
qed

lemma extract_bundles_inv:
  "extract_bundles isoparse residue bs collections = (bs', Inr collections') \<Longrightarrow>
   table_inv isoparse collections \<Longrightarrow> table_inv isoparse collections'"
proof (induction bs arbitrary: collections bs')
  case Nil
  then show ?case by simp
next
  case (Cons b rest)
  from Cons.prems(1) obtain b' c1 rest' where
    e: "extract_collection isoparse residue b collections ''Imported'' = (c1, b', None)"
    and r: "extract_bundles isoparse residue rest c1 = (rest', Inr collections')"
    by (auto split: option.splits sum.splits prod.splits)
  from extract_collection_None(1)[OF e] Cons.prems(2) have "table_inv isoparse c1"
    by (rule extract_objects_inv)
  with Cons.IH[OF r] show ?case .
qed

lemma build_table_inv:
  assumes "build_table isoparse residue fs root_url files folders bundles
             = (tr, bundles', Inr collections)"
  shows "table_inv isoparse collections"
proof -
  from assms obtain files' cleaned tr2 c1 where
    f: "extract_files isoparse residue fs root_url files' [] = (tr2, Inr c1)"
    and b: "extract_bundles isoparse residue cleaned c1 = (bundles', Inr collections)"
    by (auto simp: build_table_def Let_def split: prod.splits sum.splits option.splits)
  have "table_inv isoparse ([] :: table)"
    by (simp add: table_inv_def)
  with f have "table_inv isoparse c1"
    by (rule extract_files_inv)
  with b show ?thesis
    by (rule extract_bundles_inv)
qed

lemma versions_sorted_last_least:
  assumes "versions_sorted isoparse vs" and "v \<in> set vs"
  shows "instant (the (isoparse (v_modified (last vs))))
           \<le> instant (the (isoparse (v_modified v)))"
proof (cases vs rule: rev_cases)
  case Nil
  with assms show ?thesis by simp
next
  case (snoc ys y)
  with assms show ?thesis
    by (auto simp: versions_sorted_def sorted_wrt_append)
qed

lemma generate_index_Inr:
  assumes "generate_index isoparse residue fs uuid name description root_url
             files folders bundles = (tr, bundles', Inr idx)"
  shows "\<exists>collections.
           build_table isoparse residue fs root_url files folders bundles
             = (tr, bundles', Inr collections)
         \<and> assemble isoparse uuid name description collections = Inr idx"
  using assms by (auto simp: generate_index_def split: prod.splits sum.splits)

lemma assemble_Inr:
  assumes "assemble isoparse uuid name description collections = Inr idx"
  shows "\<exists>out c m.
           finish_collections isoparse collections None None = Inr (out, Some c, Some m)
         \<and> idx = \<lparr>idx_id = uuid, idx_name = name, idx_description = description,
                   idx_created = c, idx_modified = m, idx_collections = out\<rparr>"
  using assms by (auto simp: assemble_def split: sum.splits option.splits)

text \<open>
  Claim C3. Every collection of a returned index comes from a collection of the table
  built from the sources; its name and description are those of the last version of
  that collection's list, the list is sorted descending by \<^verbatim>\<open>modified\<close>, and so the
  last version carries the earliest timestamp of the list.
\<close>

theorem name_taken_from_last_version:
  assumes "generate_index isoparse residue fs uuid name description root_url
             files folders bundles = (tr, bundles', Inr idx)"
    and "r \<in> set (idx_collections idx)"
  shows "\<exists>collections k c.
           build_table isoparse residue fs root_url files folders bundles
             = (tr, bundles', Inr collections)
         \<and> (k, c) \<in> set collections
         \<and> ic_id r = c_id c
         \<and> c_versions c \<noteq> []
         \<and> versions_sorted isoparse (c_versions c)
         \<and> ic_name r = v_name (last (c_versions c))
         \<and> ic_description r = v_description (last (c_versions c))
         \<and> (\<forall>v \<in> set (c_versions c).
               instant (the (isoparse (v_modified (last (c_versions c)))))
                 \<le> instant (the (isoparse (v_modified v))))"
proof -
  from generate_index_Inr[OF assms(1)] obtain collections where
    b: "build_table isoparse residue fs root_url files folders bundles
          = (tr, bundles', Inr collections)"
    and a: "assemble isoparse uuid name description collections = Inr idx"
    by blast
  from assemble_Inr[OF a] obtain out c m where
    f: "finish_collections isoparse collections None None = Inr (out, Some c, Some m)"
    and i: "idx_collections idx = out"
    by auto
  from finish_collections_Inr[OF f] have l: "list_all2 finished collections out"
    by blast
  from assms(2) i obtain n where n: "n < length out" "out ! n = r"
    by (auto simp: in_set_conv_nth)
  from l n have fin: "finished (collections ! n) r" and len: "n < length collections"
    by (auto simp: list_all2_conv_all_nth)
  obtain k c where kc: "collections ! n = (k, c)"
    by (cases "collections ! n")
  from len kc have mem: "(k, c) \<in> set collections"
    by (metis nth_mem)
  from build_table_inv[OF b] mem have s: "versions_sorted isoparse (c_versions c)"
    by (auto simp: table_inv_def list_all_iff)
  from s have least: "\<forall>v \<in> set (c_versions c).
               instant (the (isoparse (v_modified (last (c_versions c)))))
                 \<le> instant (the (isoparse (v_modified v)))"
    by (auto intro: versions_sorted_last_least)
  from fin kc have "ic_id r = c_id c" "c_versions c \<noteq> []"
    "ic_name r = v_name (last (c_versions c))"
    "ic_description r = v_description (last (c_versions c))"
    by (simp_all add: finished_def)
  with b mem s least show ?thesis by blast
qed

theorem name_taken_from_last_version_witness:
  "generate_index isoparse_example id example_fs ''u'' ''n'' ''d'' ''http://r'' [] [''dir''] []
     = (example_trace, [], Inr example_index)
   \<and> hd (idx_collections example_index) \<in> set (idx_collections example_index)
   \<and> ic_id (hd (idx_collections example_index)) = ''X''
   \<and> ic_name (hd (idx_collections example_index))
       = v_name (last (versions_of example_dir_table ''X''))
   \<and> ic_name (hd (idx_collections example_index)) = ''Alpha''
   \<and> map v_name (versions_of example_dir_table ''X'') = [''Beta'', ''Alpha'']"
proof -
  have g: "generate_index isoparse_example id example_fs ''u'' ''n'' ''d'' ''http://r''
             [] [''dir''] [] = (example_trace, [], Inr example_index)"
    by code_simp
  have b: "build_table isoparse_example id example_fs ''http://r'' [] [''dir''] []
     = (example_trace, [], Inr example_dir_table)"
    by code_simp
  have m: "hd (idx_collections example_index) \<in> set (idx_collections example_index)"
    by (simp add: example_index_def)
  have x: "ic_id (hd (idx_collections example_index)) = ''X''"
    by (simp add: example_index_def)
  have t: "\<And>k c. (k, c) \<in> set example_dir_table \<Longrightarrow> c_id c = ''X'' \<Longrightarrow>
             c_versions c = versions_of example_dir_table ''X''"
    by (auto simp: example_dir_table_def versions_of_def)
  from name_taken_from_last_version[OF g m] b t x
  have "ic_name (hd (idx_collections example_index))
       = v_name (last (versions_of example_dir_table ''X''))"
    by auto
  moreover have "ic_name (hd (idx_collections example_index)) = ''Alpha''"
    by (simp add: example_index_def)
  moreover have "map v_name (versions_of example_dir_table ''X'') = [''Beta'', ''Alpha'']"
    by (simp add: example_dir_table_def versions_of_def)
  ultimately show ?thesis
    using g m x by simp
qed

section \<open>The timestamps of the index\<close>

lemma comparable_kind:
  "comparable ks \<Longrightarrow> \<exists>K. \<forall>k \<in> set ks. is_aware k = K"
  by (auto simp: comparable_def list_all_iff)

lemma kind_comparable:
  "\<forall>k \<in> set ks. is_aware k = K \<Longrightarrow> comparable ks"
  by (cases K) (auto simp: comparable_def list_all_iff)

lemma later_of_total:
  assumes "is_aware t = K" and "\<forall>m. im = Some m \<longrightarrow> is_aware m = K"
  shows "\<exists>m1. later_of im t = Inr m1 \<and> is_aware m1 = K"
  using assms by (cases im) (auto simp: dt_less_same_kind)

lemma earlier_of_total:
  assumes "is_aware t = K" and "\<forall>m. ic = Some m \<longrightarrow> is_aware m = K"
  shows "\<exists>m1. earlier_of ic t = Inr m1 \<and> is_aware m1 = K"
  using assms by (cases ic) (auto simp: dt_less_same_kind)

lemma strip_versions_total:
  "\<forall>v \<in> set vs. \<exists>t. isoparse (v_modified v) = Some t \<and> is_aware t = K \<Longrightarrow>
   \<forall>m. im = Some m \<longrightarrow> is_aware m = K \<Longrightarrow>
   \<exists>out im'. strip_versions isoparse vs im = Inr (out, im')
            \<and> (\<forall>m. im' = Some m \<longrightarrow> is_aware m = K)"
proof (induction vs arbitrary: im)
  case Nil
  then show ?case by simp
next
  case (Cons v vs)
  from Cons.prems(1) obtain t where t: "isoparse (v_modified v) = Some t" "is_aware t = K"
    and r: "\<forall>v \<in> set vs. \<exists>t. isoparse (v_modified v) = Some t \<and> is_aware t = K"
    by auto
  from later_of_total[OF t(2) Cons.prems(2)] obtain m1 where
    m1: "later_of im t = Inr m1" "is_aware m1 = K"
    by blast
  from Cons.IH[OF r, of "Some m1"] m1(2) obtain out im' where
    "strip_versions isoparse vs (Some m1) = Inr (out, im')"
    "\<forall>m. im' = Some m \<longrightarrow> is_aware m = K"
    by auto
  with t m1 show ?case by simp
qed

lemma finish_collections_total:
  "\<forall>(k, c) \<in> set collections.
      c_versions c \<noteq> []
    \<and> (\<exists>t. isoparse (c_created c) = Some t \<and> is_aware t = KC)
    \<and> (\<forall>v \<in> set (c_versions c). \<exists>t. isoparse (v_modified v) = Some t \<and> is_aware t = KM) \<Longrightarrow>
   \<forall>m. ic = Some m \<longrightarrow> is_aware m = KC \<Longrightarrow>
   \<forall>m. im = Some m \<longrightarrow> is_aware m = KM \<Longrightarrow>
   \<exists>out ic' im'. finish_collections isoparse collections ic im = Inr (out, ic', im')"
proof (induction collections arbitrary: ic im)
  case Nil
  then show ?case by simp
next
  case (Cons kc rest)
  obtain k c where kc: "kc = (k, c)" by (cases kc)
  from Cons.prems(1) kc obtain t where
    ne: "c_versions c \<noteq> []"
    and t: "isoparse (c_created c) = Some t" "is_aware t = KC"
    and vs: "\<forall>v \<in> set (c_versions c). \<exists>t. isoparse (v_modified v) = Some t \<and> is_aware t = KM"
    and r: "\<forall>(k, c) \<in> set rest.
              c_versions c \<noteq> []
            \<and> (\<exists>t. isoparse (c_created c) = Some t \<and> is_aware t = KC)
            \<and> (\<forall>v \<in> set (c_versions c).
                  \<exists>t. isoparse (v_modified v) = Some t \<and> is_aware t = KM)"
    by auto
  from earlier_of_total[OF t(2) Cons.prems(2)] obtain c1 where
    c1: "earlier_of ic t = Inr c1" "is_aware c1 = KC"
    by blast
  from strip_versions_total[OF vs Cons.prems(3)] obtain vs1 im1 where
    s: "strip_versions isoparse (c_versions c) im = Inr (vs1, im1)"
       "\<forall>m. im1 = Some m \<longrightarrow> is_aware m = KM"
    by blast
  from Cons.IH[OF r, of "Some c1" im1] c1(2) s(2) obtain out ic' im' where
    "finish_collections isoparse rest (Some c1) im1 = Inr (out, ic', im')"
    by auto
  with kc ne t c1 s show ?case by simp
qed

text \<open>
  Claim C6. When the assembly of a table returns an index, the table is not empty, every
  \<^verbatim>\<open>created\<close> and every \<^verbatim>\<open>modified\<close> of the table parses, the created datetimes
  can be compared with one another and so can the modified ones, the index's created is
  the minimum of the collections' created and its modified is the maximum of the modified
  of all versions of all collections; so no collection's created is earlier than the
  index's and no version's modified is later than the index's. And the assembly does
  return an index for every table that is not empty, whose version lists are not empty
  and sorted, whose created timestamps parse, and whose created datetimes, and modified
  datetimes, are all naive or all aware.
\<close>

theorem index_created_min_modified_max:
  "(assemble isoparse uuid name description collections = Inr idx \<longrightarrow>
      collections \<noteq> []
    \<and> (\<exists>cts mts.
          map (\<lambda>(k, c). isoparse (c_created c)) collections = map Some cts
        \<and> concat (map (\<lambda>(k, c). map (\<lambda>v. isoparse (v_modified v)) (c_versions c))
                    collections) = map Some mts
        \<and> comparable cts \<and> comparable mts
        \<and> idx_created idx \<in> set cts
        \<and> idx_modified idx \<in> set mts
        \<and> instant (idx_created idx) = Min (instant ` set cts)
        \<and> instant (idx_modified idx) = Max (instant ` set mts)
        \<and> (\<forall>t \<in> set cts. dt_less t (idx_created idx) = Inr False)
        \<and> (\<forall>t \<in> set mts. dt_less (idx_modified idx) t = Inr False)))
   \<and> (collections \<noteq> [] \<and> table_inv isoparse collections
       \<and> list_all (\<lambda>(k, c). isoparse (c_created c) \<noteq> None) collections
       \<and> comparable (map (\<lambda>(k, c). the (isoparse (c_created c))) collections)
       \<and> comparable (concat (map (\<lambda>(k, c). map (\<lambda>v. the (isoparse (v_modified v)))
                                             (c_versions c)) collections)) \<longrightarrow>
      (\<exists>i. assemble isoparse uuid name description collections = Inr i))"
proof (intro conjI impI)
  assume a: "assemble isoparse uuid name description collections = Inr idx"
  from assemble_Inr[OF a] obtain out c m where
    f: "finish_collections isoparse collections None None = Inr (out, Some c, Some m)"
    and i: "idx_created idx = c" "idx_modified idx = m"
    by auto
  from finish_collections_Inr[OF f] obtain cts mts where
    A: "map (\<lambda>(k, c). isoparse (c_created c)) collections = map Some cts"
    and B: "concat (map (\<lambda>(k, c). map (\<lambda>v. isoparse (v_modified v)) (c_versions c))
                    collections) = map Some mts"
    and C: "earliest_in c (set_option None \<union> set cts)"
    and M: "latest_in m (set_option None \<union> set mts)"
    by (simp only: option.case) blast
  have mem: "c \<in> set cts" "m \<in> set mts"
    using C M unfolding earliest_in_def latest_in_def by blast+
  have Ck: "\<forall>s \<in> set cts. is_aware s = is_aware c"
    and Cl: "\<forall>s \<in> set cts. instant c \<le> instant s"
    using C unfolding earliest_in_def by blast+
  have Mk: "\<forall>s \<in> set mts. is_aware s = is_aware m"
    and Ml: "\<forall>s \<in> set mts. instant s \<le> instant m"
    using M unfolding latest_in_def by blast+
  from mem(1) have "cts \<noteq> []" by auto
  then have "map Some cts \<noteq> []" by simp
  with A show "collections \<noteq> []" by (cases collections) simp_all
  have cmp: "comparable cts" "comparable mts"
    by (rule kind_comparable[OF Ck], rule kind_comparable[OF Mk])
  have fin: "finite (instant ` set cts)" "finite (instant ` set mts)"
    by simp_all
  have "Min (instant ` set cts) = instant c"
  proof (rule Min_eqI[OF fin(1)])
    fix y assume "y \<in> instant ` set cts"
    with Cl show "instant c \<le> y" by blast
  next
    from mem(1) show "instant c \<in> instant ` set cts" by blast
  qed
  moreover have "Max (instant ` set mts) = instant m"
  proof (rule Max_eqI[OF fin(2)])
    fix y assume "y \<in> instant ` set mts"
    with Ml show "y \<le> instant m" by blast
  next
    from mem(2) show "instant m \<in> instant ` set mts" by blast
  qed
  moreover have "\<forall>t \<in> set cts. dt_less t c = Inr False"
  proof
    fix t assume "t \<in> set cts"
    with Ck Cl have "is_aware t = is_aware c" "instant c \<le> instant t" by blast+
    then show "dt_less t c = Inr False" by (simp add: dt_less_same_kind)
  qed
  moreover have "\<forall>t \<in> set mts. dt_less m t = Inr False"
  proof
    fix t assume "t \<in> set mts"
    with Mk Ml have "is_aware t = is_aware m" "instant t \<le> instant m" by blast+
    then show "dt_less m t = Inr False" by (simp add: dt_less_same_kind)
  qed
  ultimately show "\<exists>cts mts.
          map (\<lambda>(k, c). isoparse (c_created c)) collections = map Some cts
        \<and> concat (map (\<lambda>(k, c). map (\<lambda>v. isoparse (v_modified v)) (c_versions c))
                    collections) = map Some mts
        \<and> comparable cts \<and> comparable mts
        \<and> idx_created idx \<in> set cts
        \<and> idx_modified idx \<in> set mts
        \<and> instant (idx_created idx) = Min (instant ` set cts)
        \<and> instant (idx_modified idx) = Max (instant ` set mts)
        \<and> (\<forall>t \<in> set cts. dt_less t (idx_created idx) = Inr False)
        \<and> (\<forall>t \<in> set mts. dt_less (idx_modified idx) t = Inr False)"
    using A B cmp mem i by (intro exI[of _ cts] exI[of _ mts]) simp
next
  assume h: "collections \<noteq> [] \<and> table_inv isoparse collections
       \<and> list_all (\<lambda>(k, c). isoparse (c_created c) \<noteq> None) collections
       \<and> comparable (map (\<lambda>(k, c). the (isoparse (c_created c))) collections)
       \<and> comparable (concat (map (\<lambda>(k, c). map (\<lambda>v. the (isoparse (v_modified v)))
                                             (c_versions c)) collections))"
  from h have ne_all: "\<forall>(k, c) \<in> set collections. c_versions c \<noteq> []"
    and parse_m: "\<forall>(k, c) \<in> set collections.
                    \<forall>v \<in> set (c_versions c). isoparse (v_modified v) \<noteq> None"
    by (auto simp: table_inv_def versions_sorted_def list_all_iff)
  from h have parse_c: "\<forall>(k, c) \<in> set collections. isoparse (c_created c) \<noteq> None"
    by (simp add: list_all_iff)
  from h have "comparable (map (\<lambda>(k, c). the (isoparse (c_created c))) collections)"
    by simp
  from comparable_kind[OF this] obtain KC where
    KC: "\<forall>x \<in> set (map (\<lambda>(k, c). the (isoparse (c_created c))) collections).
           is_aware x = KC"
    by blast
  from h have "comparable (concat (map (\<lambda>(k, c). map (\<lambda>v. the (isoparse (v_modified v)))
                                             (c_versions c)) collections))"
    by simp
  from comparable_kind[OF this] obtain KM where
    KM: "\<forall>x \<in> set (concat (map (\<lambda>(k, c). map (\<lambda>v. the (isoparse (v_modified v)))
                                             (c_versions c)) collections)). is_aware x = KM"
    by blast
  have pre: "\<forall>(k, c) \<in> set collections.
      c_versions c \<noteq> []
    \<and> (\<exists>t. isoparse (c_created c) = Some t \<and> is_aware t = KC)
    \<and> (\<forall>v \<in> set (c_versions c). \<exists>t. isoparse (v_modified v) = Some t \<and> is_aware t = KM)"
  proof (intro ballI, clarify, intro conjI ballI)
    fix k c
    assume kc: "(k, c) \<in> set collections"
    with ne_all show "c_versions c \<noteq> []"
      by blast
    from kc parse_c obtain t where t: "isoparse (c_created c) = Some t"
      by blast
    from kc have "the (isoparse (c_created c))
             \<in> set (map (\<lambda>(k, c). the (isoparse (c_created c))) collections)"
      by (simp add: image_iff) (use kc in \<open>force\<close>)
    with KC have "is_aware (the (isoparse (c_created c))) = KC"
      by blast
    with t have "is_aware t = KC"
      by simp
    with t show "\<exists>t. isoparse (c_created c) = Some t \<and> is_aware t = KC"
      by simp
  next
    fix k c v
    assume kc: "(k, c) \<in> set collections" and v: "v \<in> set (c_versions c)"
    with parse_m obtain t where t: "isoparse (v_modified v) = Some t"
      by blast
    from kc v have "the (isoparse (v_modified v))
             \<in> set (concat (map (\<lambda>(k, c). map (\<lambda>v. the (isoparse (v_modified v)))
                                             (c_versions c)) collections))"
      by (simp add: image_iff) (use kc v in \<open>force\<close>)
    with KM have "is_aware (the (isoparse (v_modified v))) = KM"
      by blast
    with t have "is_aware t = KM"
      by simp
    with t show "\<exists>t. isoparse (v_modified v) = Some t \<and> is_aware t = KM"
      by simp
  qed
  from finish_collections_total[OF pre, of None None] obtain out ic' im' where
    f: "finish_collections isoparse collections None None = Inr (out, ic', im')"
    by auto
  from finish_collections_Inr[OF f] obtain cts mts where
    A: "map (\<lambda>(k, c). isoparse (c_created c)) collections = map Some cts"
    and B: "concat (map (\<lambda>(k, c). map (\<lambda>v. isoparse (v_modified v)) (c_versions c))
                    collections) = map Some mts"
    and C: "ic' = None \<longrightarrow> cts = []"
    and M: "im' = None \<longrightarrow> mts = []"
    by (auto split: option.splits)
  from h obtain k c rest where kc: "collections = (k, c) # rest"
    by (cases collections) auto
  with h have ne: "c_versions c \<noteq> []"
    by (simp add: table_inv_def)
  from A kc have "cts \<noteq> []" by auto
  moreover from B kc ne have "mts \<noteq> []" by auto
  ultimately obtain c' m' where "ic' = Some c'" "im' = Some m'"
    using C M by auto
  with f show "\<exists>i. assemble isoparse uuid name description collections = Inr i"
    by (simp add: assemble_def)
qed

theorem index_created_min_modified_max_witness:
  "assemble isoparse_example ''u'' ''n'' ''d'' example_dir_table = Inr example_index
   \<and> example_dir_table \<noteq> []
   \<and> table_inv isoparse_example example_dir_table
   \<and> list_all (\<lambda>(k, c). isoparse_example (c_created c) \<noteq> None) example_dir_table
   \<and> comparable (map (\<lambda>(k, c). the (isoparse_example (c_created c))) example_dir_table)
   \<and> comparable (concat (map (\<lambda>(k, c). map (\<lambda>v. the (isoparse_example (v_modified v)))
                                         (c_versions c)) example_dir_table))
   \<and> map (\<lambda>(k, c). isoparse_example (c_created c)) example_dir_table
       = map Some [Aware 20200101000000, Aware 20190301000000]
   \<and> concat (map (\<lambda>(k, c). map (\<lambda>v. isoparse_example (v_modified v)) (c_versions c))
               example_dir_table)
       = map Some [Aware 20210101000000, Aware 20200201000000, Aware 20200601000000]
   \<and> idx_created example_index = Aware 20190301000000
   \<and> idx_modified example_index = Aware 20210101000000
   \<and> instant (idx_created example_index)
       = Min (instant ` set [Aware 20200101000000, Aware 20190301000000])
   \<and> instant (idx_modified example_index)
       = Max (instant ` set [Aware 20210101000000, Aware 20200201000000,
                             Aware 20200601000000])"
proof -
  have a: "assemble isoparse_example ''u'' ''n'' ''d'' example_dir_table = Inr example_index"
    by code_simp
  have h: "example_dir_table \<noteq> [] \<and> table_inv isoparse_example example_dir_table
       \<and> list_all (\<lambda>(k, c). isoparse_example (c_created c) \<noteq> None) example_dir_table
       \<and> comparable (map (\<lambda>(k, c). the (isoparse_example (c_created c))) example_dir_table)
       \<and> comparable (concat (map (\<lambda>(k, c). map (\<lambda>v. the (isoparse_example (v_modified v)))
                                         (c_versions c)) example_dir_table))"
    by code_simp
  have c: "map (\<lambda>(k, c). isoparse_example (c_created c)) example_dir_table
       = map Some [Aware 20200101000000, Aware 20190301000000]"
    by code_simp
  have m: "concat (map (\<lambda>(k, c). map (\<lambda>v. isoparse_example (v_modified v)) (c_versions c))
               example_dir_table)
       = map Some [Aware 20210101000000, Aware 20200201000000, Aware 20200601000000]"
    by code_simp
  have v: "idx_created example_index = Aware 20190301000000
         \<and> idx_modified example_index = Aware 20210101000000"
    by (simp add: example_index_def)
  from index_created_min_modified_max
         [of isoparse_example "''u''" "''n''" "''d''" example_dir_table example_index] a
  obtain cts mts where
    c': "map (\<lambda>(k, c). isoparse_example (c_created c)) example_dir_table = map Some cts"
    and m': "concat (map (\<lambda>(k, c). map (\<lambda>v. isoparse_example (v_modified v)) (c_versions c))
                    example_dir_table) = map Some mts"
    and w: "instant (idx_created example_index) = Min (instant ` set cts)"
           "instant (idx_modified example_index) = Max (instant ` set mts)"
    by blast
  from c c' have "cts = [Aware 20200101000000, Aware 20190301000000]"
    by (auto simp: map_eq_Cons_conv)
  moreover from m m'
  have "mts = [Aware 20210101000000, Aware 20200201000000, Aware 20200601000000]"
    by (auto simp: map_eq_Cons_conv)
  ultimately have
    "instant (idx_created example_index)
       = Min (instant ` set [Aware 20200101000000, Aware 20190301000000])"
    "instant (idx_modified example_index)
       = Max (instant ` set [Aware 20210101000000, Aware 20200201000000,
                             Aware 20200601000000])"
    using w by simp_all
  with a h c m v show ?thesis
    by (intro conjI) (simp_all only: simp_thms)
qed

text \<open>
  Without the last condition the assembly can raise: of two collections, one created
  with an offset and one without, the second is compared with the first at line 68.
\<close>

lemma mixed_created_raises:
  "table_inv isoparse_example mixed_table
   \<and> list_all (\<lambda>(k, c). isoparse_example (c_created c) \<noteq> None) mixed_table
   \<and> assemble isoparse_example ''u'' ''n'' ''d'' mixed_table = Inl TypeError"
  by code_simp

section \<open>An empty table\<close>

text \<open>
  Claim C1, as the code has it. There is no \<^verbatim>\<open>NoCollectionsFound\<close>: when the table
  is empty after all sources are processed, the loop of lines 63-77 runs no iteration,
  \<^verbatim>\<open>index_created\<close> is still \<^verbatim>\<open>None\<close> at line 83, and the call ends with the
  \<^verbatim>\<open>AttributeError\<close> of \<^verbatim>\<open>None.isoformat()\<close>. No index is returned.
\<close>

theorem empty_table_gives_no_index:
  assumes "build_table isoparse residue fs root_url files folders bundles
             = (tr, bundles', Inr [])"
  shows "generate_index isoparse residue fs uuid name description root_url
           files folders bundles
           = (tr, bundles', Inl (AttributeError ''isoformat''))"
  using assms by (simp add: generate_index_def assemble_def)

theorem empty_table_gives_no_index_witness:
  "build_table isoparse_example id example_fs ''http://r'' [] [] [] = ([], [], Inr [])
   \<and> generate_index isoparse_example id example_fs ''u'' ''n'' ''d'' ''http://r'' [] [] []
       = ([], [], Inl (AttributeError ''isoformat''))"
proof -
  have b: "build_table isoparse_example id example_fs ''http://r'' [] [] [] = ([], [], Inr [])"
    by (simp add: build_table_def)
  from empty_table_gives_no_index[OF b] b show ?thesis by simp
qed

text \<open>
  The claim as stated fails: a directory without any version file gives an empty table,
  and the run ends with the \<^verbatim>\<open>AttributeError\<close> raised while the created timestamp
  of the index is computed.
\<close>

theorem no_collections_counterexample:
  "generate_index isoparse_example id example_fs ''u'' ''n'' ''d'' ''http://r'' [] [''docs''] []
     = ([ListDir ''docs''], [], Inl (AttributeError ''isoformat''))"
  by code_simp

section \<open>Files and folders together\<close>

lemma build_table_conflict:
  assumes "files \<noteq> []" and "folders \<noteq> []"
  shows "build_table isoparse residue fs root_url files folders bundles
       = (Printed usage_warning
            # fst (build_table isoparse residue fs root_url [] folders bundles),
          snd (build_table isoparse residue fs root_url [] folders bundles))"
  using assms
  by (auto simp: build_table_def split: prod.splits sum.splits option.splits)

lemma scan_folders_first:
  "\<exists>tr r. scan_folders fs (folder # rest) files = (ListDir folder # tr, r)"
  by (auto split: option.splits prod.splits)

lemma build_table_trace_conflict:
  assumes "files \<noteq> []" and "folders \<noteq> []"
  shows "\<exists>tr. fst (build_table isoparse residue fs root_url files folders bundles)
            = Printed usage_warning # ListDir (hd folders) # tr"
proof -
  from assms(2) obtain folder rest where fr: "folders = folder # rest"
    by (cases folders) auto
  from scan_folders_first[of fs folder rest "[]"] obtain tr1 r where
    s: "scan_folders fs (folder # rest) [] = (ListDir folder # tr1, r)"
    by blast
  show ?thesis
    using assms(1) fr s
    by (auto simp: build_table_def Let_def simp del: scan_folders.simps
             split: prod.splits sum.splits option.splits)
qed

text \<open>
  Claim C2, as the code has it. When both \<^verbatim>\<open>files\<close> and \<^verbatim>\<open>folders\<close> are given,
  the warning of line 27 is printed first, before anything is read, and the call is not
  rejected: the next thing it does is to list the first folder.
\<close>

theorem conflict_warns_before_listing:
  assumes "files \<noteq> []" and "folders \<noteq> []"
  shows "\<exists>tr. fst (generate_index isoparse residue fs uuid name description root_url
                     files folders bundles)
            = Printed usage_warning # ListDir (hd folders) # tr"
  using build_table_trace_conflict[OF assms, of isoparse residue fs root_url bundles]
  by (auto simp: generate_index_def split: prod.splits sum.splits)

theorem conflict_warns_before_listing_witness:
  "[''zzz''] \<noteq> [] \<and> [''dir''] \<noteq> []
   \<and> take 2 (fst (generate_index isoparse_example id example_fs ''u'' ''n'' ''d'' ''http://r''
                    [''zzz''] [''dir''] []))
       = [Printed usage_warning, ListDir ''dir'']"
proof -
  have f: "[''zzz''] \<noteq> ([] :: string list)" and d: "[''dir''] \<noteq> ([] :: string list)"
    by simp_all
  from conflict_warns_before_listing[OF f d, of isoparse_example id example_fs
         "''u''" "''n''" "''d''" "''http://r''" "[]"]
  show ?thesis by auto
qed

text \<open>
  The claim as stated fails: with a file list and a folder list the call returns an
  index, after listing the folder and opening the files found there.
\<close>

theorem usage_conflict_counterexample:
  "[''zzz''] \<noteq> [] \<and> [''dir''] \<noteq> []
   \<and> generate_index isoparse_example id example_fs ''u'' ''n'' ''d'' ''http://r''
         [''zzz''] [''dir''] []
       = (Printed usage_warning # example_trace, [], Inr example_index)"
  by code_simp

text \<open>
  Claim C10. With both arguments given, the call prints the warning and then does what
  the call with the folders alone does: the same events, the same bundles left and the
  same result, the \<^verbatim>\<open>files\<close> argument being overwritten at line 31.
\<close>

theorem conflict_proceeds_with_folders_only:
  assumes "files \<noteq> []" and "folders \<noteq> []"
  shows "generate_index isoparse residue fs uuid name description root_url
           files folders bundles
       = (Printed usage_warning
            # fst (generate_index isoparse residue fs uuid name description root_url
                     [] folders bundles),
          snd (generate_index isoparse residue fs uuid name description root_url
                 [] folders bundles))"
  using build_table_conflict[OF assms, of isoparse residue fs root_url bundles]
  by (auto simp: generate_index_def split: prod.splits sum.splits)

theorem conflict_proceeds_with_folders_only_witness:
  "[''zzz''] \<noteq> [] \<and> [''dir''] \<noteq> []
   \<and> generate_index isoparse_example id example_fs ''u'' ''n'' ''d'' ''http://r''
         [''zzz''] [''dir''] []
       = (Printed usage_warning # example_trace, [], Inr example_index)
   \<and> generate_index isoparse_example id example_fs ''u'' ''n'' ''d'' ''http://r''
         [] [''dir''] []
       = (example_trace, [], Inr example_index)"
proof -
  have f: "[''zzz''] \<noteq> ([] :: string list)" and d: "[''dir''] \<noteq> ([] :: string list)"
    by simp_all
  have g: "generate_index isoparse_example id example_fs ''u'' ''n'' ''d'' ''http://r''
             [] [''dir''] []
       = (example_trace, [], Inr example_index)"
    by code_simp
  from conflict_proceeds_with_folders_only[OF f d, of isoparse_example id example_fs
         "''u''" "''n''" "''d''" "''http://r''" "[]"] g
  show ?thesis by simp
qed

section \<open>The directory scan\<close>

text \<open>
  Claim C7, evaluated. The pattern is matched at the start of the name only and its
  \<^verbatim>\<open>.\<close> before \<^verbatim>\<open>json\<close> is the wildcard, so the scan keeps
  \<^verbatim>\<open>foo-1.0.json.bak\<close>, a name that does not end in \<^verbatim>\<open>.json\<close>, and the pattern
  accepts \<^verbatim>\<open>foo-1xjson\<close>. Over the directory of the claim the scan keeps the two
  version files, joined to the directory, and drops the readme.
\<close>

theorem name_not_ending_in_json_is_kept:
  "fs_listdir example_fs ''backup'' = Some [''foo-1.0.json.bak'', ''notes.txt'']
   \<and> scan_folders example_fs [''backup''] []
       = ([ListDir ''backup''], Inr [''backup/foo-1.0.json.bak''])
   \<and> drop (length ''foo-1.0.json.bak'' - 5) ''foo-1.0.json.bak'' \<noteq> ''.json''
   \<and> re_match version_regex ''foo-1xjson''
   \<and> scan_folders example_fs [''dir''] []
       = ([ListDir ''dir''], Inr [''dir/foo-1.0.json'', ''dir/foo-1.1.json''])"
  by code_simp

section \<open>Bundles without a collection\<close>

text \<open>
  Claim C8, evaluated. A bundle without a collection object does not get skipped: whether
  it comes before or after a bundle with collections, the run ends at line 44 with the
  \<^verbatim>\<open>AttributeError\<close> of reading the attribute \<^verbatim>\<open>id\<close> of a dict; nothing is printed
  and no bundle is extracted. A bundle with collections that came first is left holding
  the filter of line 40.
\<close>

theorem bundle_without_collection_aborts:
  "clean_bundles [other_bundle, example_bundle]
     = ([other_bundle, example_bundle], Some (AttributeError ''id''))
   \<and> generate_index isoparse residue fs uuid name description root_url [] []
         [other_bundle, example_bundle]
       = ([], [other_bundle, example_bundle], Inl (AttributeError ''id''))
   \<and> generate_index isoparse residue fs uuid name description root_url [] []
         [example_bundle, other_bundle]
       = ([],
          [example_bundle
             \<lparr>bundle_objects :=
                FilterIter [alpha_object, other_object, beta_object, gamma_object]\<rparr>,
           other_bundle],
          Inl (AttributeError ''id''))"
  by (simp add: generate_index_def build_table_def other_bundle_def example_bundle_def
        other_object_def alpha_object_def beta_object_def gamma_object_def collection_type_def)

section \<open>Two runs\<close>

lemma clean_bundles_None:
  "clean_bundles bs = (bs1, None) \<Longrightarrow>
   length bs1 = length bs \<and> (\<forall>b \<in> set bs1. \<exists>xs. bundle_objects b = FilterIter xs)"
proof (induction bs arbitrary: bs1)
  case Nil
  then show ?case by simp
next
  case (Cons b rest)
  from Cons.prems obtain objs rest' where
    r: "clean_bundles rest = (rest', None)"
    and b1: "bs1 = b\<lparr>bundle_objects := FilterIter (pending objs)\<rparr> # rest'"
    by (auto split: prod.splits bool.splits)
  from Cons.IH[OF r] b1 show ?case by auto
qed

lemma extract_bundles_consumes:
  "extract_bundles isoparse residue bs collections = (bs', Inr collections') \<Longrightarrow>
   \<forall>b \<in> set bs. \<exists>xs. bundle_objects b = FilterIter xs \<Longrightarrow>
   length bs' = length bs \<and> (\<forall>b \<in> set bs'. bundle_objects b = FilterIter [])"
proof (induction bs arbitrary: collections bs')
  case Nil
  then show ?case by simp
next
  case (Cons b rest)
  from Cons.prems(1) obtain b' c1 rest' where
    e: "extract_collection isoparse residue b collections ''Imported'' = (c1, b', None)"
    and r: "extract_bundles isoparse residue rest c1 = (rest', Inr collections')"
    and bs': "bs' = b' # rest'"
    by (auto split: option.splits sum.splits prod.splits)
  from Cons.prems(2) obtain xs where "bundle_objects b = FilterIter xs"
    by auto
  with extract_collection_None(2)[OF e] have "bundle_objects b' = FilterIter []"
    by simp
  moreover from Cons.IH[OF r] Cons.prems(2)
  have "length rest' = length rest \<and> (\<forall>b \<in> set rest'. bundle_objects b = FilterIter [])"
    by simp
  ultimately show ?case
    using bs' by simp
qed

lemma build_table_consumes:
  assumes "build_table isoparse residue fs root_url files folders bundles
             = (tr, bundles', Inr collections)"
  shows "length bundles' = length bundles
       \<and> (\<forall>b \<in> set bundles'. bundle_objects b = FilterIter [])"
proof -
  from assms obtain cleaned c1 where
    c: "clean_bundles bundles = (cleaned, None)"
    and b: "extract_bundles isoparse residue cleaned c1 = (bundles', Inr collections)"
    by (auto simp: build_table_def Let_def split: prod.splits sum.splits option.splits)
  from clean_bundles_None[OF c] extract_bundles_consumes[OF b] show ?thesis
    by simp
qed

lemma build_table_scan:
  assumes "build_table isoparse residue fs root_url files folders bundles
             = (tr, bundles', Inr collections)"
  shows "\<exists>tr1 files'. (if folders \<noteq> [] then scan_folders fs folders [] else ([], Inr files))
                         = (tr1, Inr files')"
  using assms
  by (auto simp: build_table_def Let_def split: prod.splits sum.splits option.splits)

text \<open>
  What the first run does to its bundles: when a run over a list of bundles that is not
  empty has returned an index, every bundle holds a filter that has been read to its end,
  and a second run over the same bundles finds no collection object in the first of them
  and ends at line 44.
\<close>

lemma second_run_on_same_bundles:
  assumes "generate_index isoparse residue fs uuid1 name description root_url
             files folders bundles = (tr, bundles1, Inr idx1)"
    and "bundles \<noteq> []"
  shows "snd (snd (generate_index isoparse residue fs uuid2 name description root_url
                     files folders bundles1))
           = Inl (AttributeError ''id'')"
proof -
  from generate_index_Inr[OF assms(1)] obtain collections where
    b: "build_table isoparse residue fs root_url files folders bundles
          = (tr, bundles1, Inr collections)"
    by blast
  from build_table_consumes[OF b] assms(2) obtain b1 rest where
    bs: "bundles1 = b1 # rest" and o: "bundle_objects b1 = FilterIter []"
    by (cases bundles1) auto
  from o have "clean_bundles (b1 # rest)
                 = (b1\<lparr>bundle_objects := FilterIter []\<rparr> # rest, Some (AttributeError ''id''))"
    by simp
  with build_table_scan[OF b] bs
  have "snd (snd (build_table isoparse residue fs root_url files folders bundles1))
          = Inl (AttributeError ''id'')"
    by (auto simp: build_table_def Let_def simp del: clean_bundles.simps scan_folders.simps)
  then show ?thesis
    by (auto simp: generate_index_def split: prod.splits sum.splits)
qed





end
